theory Spec2Isabelle
  imports Main "HOL-Library.Word"
begin

section \<open>Exceptions and results\<close>

text \<open>
  A C++ exception, by the class a handler of the sources can catch:
  \<open>std::runtime_error\<close> (or a class derived from it) with its \<open>what()\<close> message,
  \<open>std::bad_alloc\<close>, and everything else (for instance the \<open>std::out_of_range\<close> of
  \<open>std::map::at\<close>, which is a \<open>std::logic_error\<close>).
\<close>

datatype exn = Runtime_error string | Bad_alloc | Other_exn string

datatype 'a outcome = Returned 'a | Thrown exn

section \<open>Data model of libursa used by Daemon.cpp\<close>

text \<open>
  The classes below are declared in headers that are not part of the sources at hand
  (Task.h, Command.h, Responses.h, DatabaseSnapshot.h, DatabaseConfig.h, OnDiskDataset.h).
  Their shape is taken from the calls that Daemon.cpp makes on them and from the data
  model of the specification.
\<close>

datatype DbChangeType = NewIterator | ConfigChange | ToggleTaint | Drop | NewDataset

text \<open>A \<open>DBChange(type, args...)\<close>: the tag and the string arguments as written at the call.\<close>

datatype DBChange = DBChange DbChangeType "string list"

record TaskSpec =
  spec_id :: nat
  hex_conn_id :: string

record Task =
  task_id :: nat
  conn_id :: string
  request :: string
  changes :: "DBChange list"
  spec :: TaskSpec

text \<open>Modelled from the spec: \<open>Task::change\<close> appends to the growing ordered list of
  \<open>DBChange\<close> records of the task.\<close>

definition change :: "DBChange \<Rightarrow> Task \<Rightarrow> Task" where
  "change c task = task\<lparr>changes := changes task @ [c]\<rparr>"

typedecl Query
typedecl IndexType
typedecl QueryCounters

record OnDiskIndex =
  index_type :: IndexType
  real_size :: "64 word"

record OnDiskDataset =
  get_id :: string
  get_file_count :: "64 word"
  get_taints :: "string set"
  get_indexes :: "OnDiskIndex list"

text \<open>\<open>DatabaseConfig\<close>, with \<open>'k\<close> for the class \<open>ConfigKey\<close>: its three methods used by
  the executor are parameters of the model.\<close>

record 'k DatabaseConfig =
  get :: "'k \<Rightarrow> 64 word"
  get_all :: "string \<rightharpoonup> 64 word"
  can_set :: "'k \<Rightarrow> 64 word \<Rightarrow> bool"

text \<open>
  \<open>DatabaseSnapshot\<close>: the ordered datasets, the configuration, the task list shown by
  Status, the two candidate lists of compaction (computed by methods that are not in the
  sources at hand; taken as given), and the locks held by this snapshot.
\<close>

record 'k DatabaseSnapshot =
  get_datasets :: "OnDiskDataset list"
  get_config :: "'k DatabaseConfig"
  get_tasks :: "TaskSpec list"
  compact_smart_candidates :: "string list"
  compact_full_candidates :: "string list"
  locked_datasets :: "string set"
  locked_iterators :: "string set"

text \<open>Modelled from the spec: \<open>DatabaseSnapshot::find_dataset\<close> is not in the sources at
  hand; a dataset is identified by its stable id, and the result is null when the
  snapshot has no dataset of that id.\<close>

definition find_dataset :: "'k DatabaseSnapshot \<Rightarrow> string \<Rightarrow> OnDiskDataset option" where
  "find_dataset snap name = find (\<lambda>ds. get_id ds = name) (get_datasets snap)"

text \<open>The executor only asks whether the mode is \<open>TaintMode::Add\<close>; \<open>Remove\<close> stands for
  the other mode.\<close>

datatype TaintMode = Add | Remove

datatype CompactType = Smart | Full

text \<open>The alternatives of the variant \<open>Command\<close>, each with the values its getters return
  (SelectCommand: query, taints, datasets, iterator requested; IteratorPopCommand: iterator
  id, elements to pop; IndexFromCommand: path list file, index types, taints, ensure
  unique; IndexCommand: paths, index types, taints, ensure unique; ConfigGetCommand: keys;
  ConfigSetCommand: key, value; ReindexCommand: dataset id, index types; CompactCommand:
  type; TaintCommand: dataset, mode, taint; DatasetDropCommand: dataset id).\<close>

datatype Command =
    SelectCommand Query "string set" "string set" bool
  | IteratorPopCommand string "64 word"
  | IndexFromCommand string "IndexType list" "string set" bool
  | IndexCommand "string list" "IndexType list" "string set" bool
  | ConfigGetCommand "string list"
  | ConfigSetCommand string "64 word"
  | ReindexCommand string "IndexType list"
  | CompactCommand CompactType
  | StatusCommand
  | TopologyCommand
  | PingCommand
  | TaintCommand string TaintMode string
  | DatasetDropCommand string

record DatabaseName =
  get_full_path :: string
  get_filename :: string
  name_get_id :: string

record IndexEntry =
  index_entry_type :: IndexType
  index_entry_size :: "64 word"

record DatasetEntry =
  dataset_entry_id :: string
  dataset_entry_size :: "64 word"
  file_count :: "64 word"
  taints :: "string set"
  indexes :: "IndexEntry list"

datatype Response =
    Response_ok
  | Response_error string
  | Response_select "string list" QueryCounters
  | Response_select_iterator string "64 word" QueryCounters
  | Response_select_from_iterator "string list" "64 word" "64 word"
  | Response_config "string \<rightharpoonup> 64 word"
  | Response_status "TaskSpec list"
  | Response_topology "DatasetEntry list"
  | Response_ping string

text \<open>
  The collaborators of the executor that are outside the sources at hand: the command
  parser, \<open>ConfigKey::parse\<close>, and the methods of \<open>DatabaseSnapshot\<close> that run queries,
  build indexes and read iterators. Each is a parameter. A method that receives the
  \<open>Task *\<close> returns the task as it left it, also when it throws.
\<close>

record 'k Engine =
  parse_command :: "string \<Rightarrow> Command outcome"
  ConfigKey_parse :: "string \<Rightarrow> 'k option"
  allocate_name :: "'k DatabaseSnapshot \<Rightarrow> string \<Rightarrow> DatabaseName outcome"
  derive_name :: "'k DatabaseSnapshot \<Rightarrow> DatabaseName \<Rightarrow> string \<Rightarrow> DatabaseName outcome"
  execute_to_file :: "'k DatabaseSnapshot \<Rightarrow> Query \<Rightarrow> string set \<Rightarrow> string set \<Rightarrow> Task
      \<Rightarrow> string \<Rightarrow> Task \<times> (64 word \<times> QueryCounters) outcome"
  execute_in_memory :: "'k DatabaseSnapshot \<Rightarrow> Query \<Rightarrow> string set \<Rightarrow> string set \<Rightarrow> Task
      \<Rightarrow> Task \<times> (string list \<times> QueryCounters) outcome"
  construct_iterator :: "DatabaseName \<Rightarrow> DatabaseName \<Rightarrow> 64 word \<Rightarrow> unit outcome"
  read_iterator :: "'k DatabaseSnapshot \<Rightarrow> Task \<Rightarrow> string \<Rightarrow> 64 word
      \<Rightarrow> Task \<times> (string list \<times> 64 word \<times> 64 word) outcome"
  read_file :: "string \<Rightarrow> string option outcome"
  recursive_index_paths :: "'k DatabaseSnapshot \<Rightarrow> Task \<Rightarrow> IndexType list \<Rightarrow> string set
      \<Rightarrow> string list \<Rightarrow> Task \<times> unit outcome"
  force_recursive_index_paths :: "'k DatabaseSnapshot \<Rightarrow> Task \<Rightarrow> IndexType list
      \<Rightarrow> string set \<Rightarrow> string list \<Rightarrow> Task \<times> unit outcome"
  reindex_dataset :: "'k DatabaseSnapshot \<Rightarrow> Task \<Rightarrow> IndexType list \<Rightarrow> string
      \<Rightarrow> Task \<times> unit outcome"
  compact_locked_datasets :: "'k DatabaseSnapshot \<Rightarrow> Task \<Rightarrow> Task \<times> unit outcome"

section \<open>The command executor (Daemon.cpp)\<close>

subsection \<open>\<open>std::to_string\<close> on an unsigned integer\<close>

definition digit_char :: "nat \<Rightarrow> char" where
  "digit_char d = ''0123456789'' ! d"

function to_string :: "nat \<Rightarrow> string" where
  "to_string n =
     (if n < 10 then [digit_char n] else to_string (n div 10) @ [digit_char (n mod 10)])"
  by pat_completeness auto
termination
  by (relation "measure (\<lambda>n. n)") auto

declare to_string.simps [simp del]

text \<open>Reading a decimal numeral back, most significant digit first.\<close>

definition digit_val :: "char \<Rightarrow> nat" where
  "digit_val c = of_char c - 48"

definition from_decimal :: "string \<Rightarrow> nat" where
  "from_decimal s = foldl (\<lambda>acc c. 10 * acc + digit_val c) 0 s"

subsection \<open>Select, IteratorPop, Index, IndexFrom\<close>

definition execute_select ::
  "'k Engine \<Rightarrow> Query \<Rightarrow> string set \<Rightarrow> string set \<Rightarrow> bool \<Rightarrow> Task \<Rightarrow> 'k DatabaseSnapshot
     \<Rightarrow> Task \<times> Response outcome" where
  "execute_select E query tnts dsets iterator_requested task snap =
     (if iterator_requested then
        (case allocate_name E snap ''iterator'' of
           Thrown e \<Rightarrow> (task, Thrown e)
         | Returned data_filename \<Rightarrow>
             (case execute_to_file E snap query tnts dsets task (get_full_path data_filename) of
                (task1, Thrown e) \<Rightarrow> (task1, Thrown e)
              | (task1, Returned (writer_file_count, counters)) \<Rightarrow>
                  (case derive_name E snap data_filename ''itermeta'' of
                     Thrown e \<Rightarrow> (task1, Thrown e)
                   | Returned meta_filename \<Rightarrow>
                       (case construct_iterator E meta_filename data_filename writer_file_count of
                          Thrown e \<Rightarrow> (task1, Thrown e)
                        | Returned _ \<Rightarrow>
                            (change (DBChange NewIterator [get_filename meta_filename]) task1,
                             Returned (Response_select_iterator (name_get_id meta_filename)
                               writer_file_count counters))))))
      else
        (case execute_in_memory E snap query tnts dsets task of
           (task1, Thrown e) \<Rightarrow> (task1, Thrown e)
         | (task1, Returned (hits, counters)) \<Rightarrow> (task1, Returned (Response_select hits counters))))"

definition execute_iterator_pop ::
  "'k Engine \<Rightarrow> string \<Rightarrow> 64 word \<Rightarrow> Task \<Rightarrow> 'k DatabaseSnapshot \<Rightarrow> Task \<times> Response outcome" where
  "execute_iterator_pop E iterator_id elements_to_pop task snap =
     (case read_iterator E snap task iterator_id elements_to_pop of
        (task1, Thrown e) \<Rightarrow> (task1, Thrown e)
      | (task1, Returned (out, iterator_position, total_files)) \<Rightarrow>
          (task1, Returned (Response_select_from_iterator out iterator_position total_files)))"

text \<open>The lines of a stream as \<open>std::getline\<close> delivers them until end of file.\<close>

fun getlines :: "string \<Rightarrow> string \<Rightarrow> string list" where
  "getlines acc [] = [rev acc]"
| "getlines acc (c # cs) =
     (if c = CHR 0x0A then rev acc # getlines [] cs else getlines (c # acc) cs)"

definition index_paths ::
  "'k Engine \<Rightarrow> bool \<Rightarrow> IndexType list \<Rightarrow> string set \<Rightarrow> string list \<Rightarrow> Task
     \<Rightarrow> 'k DatabaseSnapshot \<Rightarrow> Task \<times> Response outcome" where
  "index_paths E ensure_unique index_types tnts paths task snap =
     (case (if ensure_unique then recursive_index_paths E snap task index_types tnts paths
            else force_recursive_index_paths E snap task index_types tnts paths) of
        (task1, Thrown e) \<Rightarrow> (task1, Thrown e)
      | (task1, Returned _) \<Rightarrow> (task1, Returned Response_ok))"

definition execute_index_from ::
  "'k Engine \<Rightarrow> string \<Rightarrow> IndexType list \<Rightarrow> string set \<Rightarrow> bool \<Rightarrow> Task
     \<Rightarrow> 'k DatabaseSnapshot \<Rightarrow> Task \<times> Response outcome" where
  "execute_index_from E path_list_fname index_types tnts ensure_unique task snap =
     (case read_file E path_list_fname of
        Thrown e \<Rightarrow> (task, Thrown e)
      | Returned None \<Rightarrow> (task, Thrown (Runtime_error ''failed to open file''))
      | Returned (Some content) \<Rightarrow>
          index_paths E ensure_unique index_types tnts
            (filter (\<lambda>filename. filename \<noteq> []) (getlines [] content)) task snap)"

definition execute_index ::
  "'k Engine \<Rightarrow> string list \<Rightarrow> IndexType list \<Rightarrow> string set \<Rightarrow> bool \<Rightarrow> Task
     \<Rightarrow> 'k DatabaseSnapshot \<Rightarrow> Task \<times> Response outcome" where
  "execute_index E paths index_types tnts ensure_unique task snap =
     index_paths E ensure_unique index_types tnts paths task snap"

subsection \<open>ConfigGet and ConfigSet\<close>

text \<open>The loop over the requested key names: \<open>vals[keyname] = get(*key)\<close> for every name
  that \<open>ConfigKey::parse\<close> resolves.\<close>

fun config_get_loop ::
  "'k Engine \<Rightarrow> 'k DatabaseConfig \<Rightarrow> string list \<Rightarrow> (string \<rightharpoonup> 64 word) \<Rightarrow> (string \<rightharpoonup> 64 word)" where
  "config_get_loop E cfg [] vals = vals"
| "config_get_loop E cfg (keyname # rest) vals =
     (case ConfigKey_parse E keyname of
        Some key \<Rightarrow> config_get_loop E cfg rest (vals(keyname \<mapsto> get cfg key))
      | None \<Rightarrow> config_get_loop E cfg rest vals)"

definition execute_config_get ::
  "'k Engine \<Rightarrow> string list \<Rightarrow> Task \<Rightarrow> 'k DatabaseSnapshot \<Rightarrow> Task \<times> Response outcome" where
  "execute_config_get E keys task snap =
     (if keys = [] then (task, Returned (Response_config (get_all (get_config snap))))
      else (task, Returned (Response_config (config_get_loop E (get_config snap) keys Map.empty))))"

definition execute_config_set ::
  "'k Engine \<Rightarrow> string \<Rightarrow> 64 word \<Rightarrow> Task \<Rightarrow> 'k DatabaseSnapshot \<Rightarrow> Task \<times> Response outcome" where
  "execute_config_set E key val task snap =
     (case ConfigKey_parse E key of
        None \<Rightarrow> (task, Returned (Response_error ''Invalid key name specified''))
      | Some k \<Rightarrow>
          if \<not> can_set (get_config snap) k val
          then (task, Returned (Response_error ''Value specified is out of range''))
          else (change (DBChange ConfigChange [key, to_string (unat val)]) task,
                Returned Response_ok))"

subsection \<open>Reindex, Compact, Status, Topology, Ping, Taint, DatasetDrop\<close>

definition execute_reindex ::
  "'k Engine \<Rightarrow> string \<Rightarrow> IndexType list \<Rightarrow> Task \<Rightarrow> 'k DatabaseSnapshot \<Rightarrow> Task \<times> Response outcome" where
  "execute_reindex E dataset_id index_types task snap =
     (case reindex_dataset E snap task index_types dataset_id of
        (task1, Thrown e) \<Rightarrow> (task1, Thrown e)
      | (task1, Returned _) \<Rightarrow> (task1, Returned Response_ok))"

definition execute_compact ::
  "'k Engine \<Rightarrow> Task \<Rightarrow> 'k DatabaseSnapshot \<Rightarrow> Task \<times> Response outcome" where
  "execute_compact E task snap =
     (case compact_locked_datasets E snap task of
        (task1, Thrown e) \<Rightarrow> (task1, Thrown e)
      | (task1, Returned _) \<Rightarrow> (task1, Returned Response_ok))"

definition execute_status :: "Task \<Rightarrow> 'k DatabaseSnapshot \<Rightarrow> Task \<times> Response outcome" where
  "execute_status task snap = (task, Returned (Response_status (get_tasks snap)))"

definition topology_entry :: "OnDiskDataset \<Rightarrow> DatasetEntry" where
  "topology_entry dataset =
     foldl (\<lambda>dataset_entry index.
              dataset_entry\<lparr>indexes := indexes dataset_entry
                               @ [\<lparr>index_entry_type = index_type index,
                                   index_entry_size = real_size index\<rparr>],
                             dataset_entry_size := dataset_entry_size dataset_entry + real_size index\<rparr>)
       \<lparr>dataset_entry_id = get_id dataset, dataset_entry_size = 0, file_count = get_file_count dataset,
        taints = get_taints dataset, indexes = []\<rparr>
       (get_indexes dataset)"

definition execute_topology :: "Task \<Rightarrow> 'k DatabaseSnapshot \<Rightarrow> Task \<times> Response outcome" where
  "execute_topology task snap =
     (task, Returned (Response_topology (map topology_entry (get_datasets snap))))"

definition execute_ping :: "Task \<Rightarrow> 'k DatabaseSnapshot \<Rightarrow> Task \<times> Response outcome" where
  "execute_ping task snap = (task, Returned (Response_ping (hex_conn_id (spec task))))"

definition execute_taint ::
  "string \<Rightarrow> TaintMode \<Rightarrow> string \<Rightarrow> Task \<Rightarrow> 'k DatabaseSnapshot \<Rightarrow> Task \<times> Response outcome" where
  "execute_taint dataset mode taint task snap =
     (case find_dataset snap dataset of
        None \<Rightarrow> (task, Thrown (Runtime_error ''can't taint non-existent dataset''))
      | Some ds \<Rightarrow>
          (let has_taint = (taint \<in> get_taints ds);
               should_have_taint = (mode = Add)
           in if has_taint \<noteq> should_have_taint
              then (change (DBChange ToggleTaint [dataset, taint]) task, Returned Response_ok)
              else (task, Returned Response_ok)))"

definition execute_dataset_drop ::
  "string \<Rightarrow> Task \<Rightarrow> 'k DatabaseSnapshot \<Rightarrow> Task \<times> Response outcome" where
  "execute_dataset_drop dataset_id task snap =
     (change (DBChange Drop [dataset_id]) task, Returned Response_ok)"

subsection \<open>Dispatch\<close>

fun dispatch_command ::
  "'k Engine \<Rightarrow> Command \<Rightarrow> Task \<Rightarrow> 'k DatabaseSnapshot \<Rightarrow> Task \<times> Response outcome" where
  "dispatch_command E (SelectCommand q ts ds it) task snap = execute_select E q ts ds it task snap"
| "dispatch_command E (IteratorPopCommand i n) task snap = execute_iterator_pop E i n task snap"
| "dispatch_command E (IndexFromCommand f its ts u) task snap =
     execute_index_from E f its ts u task snap"
| "dispatch_command E (IndexCommand ps its ts u) task snap = execute_index E ps its ts u task snap"
| "dispatch_command E (ConfigGetCommand ks) task snap = execute_config_get E ks task snap"
| "dispatch_command E (ConfigSetCommand k v) task snap = execute_config_set E k v task snap"
| "dispatch_command E (ReindexCommand d its) task snap = execute_reindex E d its task snap"
| "dispatch_command E (CompactCommand t) task snap = execute_compact E task snap"
| "dispatch_command E StatusCommand task snap = execute_status task snap"
| "dispatch_command E TopologyCommand task snap = execute_topology task snap"
| "dispatch_command E PingCommand task snap = execute_ping task snap"
| "dispatch_command E (TaintCommand d m t) task snap = execute_taint d m t task snap"
| "dispatch_command E (DatasetDropCommand d) task snap = execute_dataset_drop d task snap"

text \<open>The try block with its two handlers; the log lines are not modelled.\<close>

definition dispatch_command_safe ::
  "'k Engine \<Rightarrow> string \<Rightarrow> Task \<Rightarrow> 'k DatabaseSnapshot \<Rightarrow> Task \<times> Response outcome" where
  "dispatch_command_safe E cmd_str task snap =
     (case (case parse_command E cmd_str of
              Thrown e \<Rightarrow> (task, Thrown e)
            | Returned cmd \<Rightarrow> dispatch_command E cmd task snap) of
        (task1, Returned response) \<Rightarrow> (task1, Returned response)
      | (task1, Thrown (Runtime_error what)) \<Rightarrow> (task1, Returned (Response_error what))
      | (task1, Thrown Bad_alloc) \<Rightarrow> (task1, Returned (Response_error ''out of memory''))
      | (task1, Thrown (Other_exn x)) \<Rightarrow> (task1, Thrown (Other_exn x)))"

subsection \<open>The lock planner\<close>

datatype DatabaseLock = DatasetLock string | IteratorLock string

fun dispatch_locks :: "Command \<Rightarrow> 'k DatabaseSnapshot \<Rightarrow> DatabaseLock list" where
  "dispatch_locks (IteratorPopCommand iterator_id n) snap = [IteratorLock iterator_id]"
| "dispatch_locks (ReindexCommand dataset_id its) snap = [DatasetLock dataset_id]"
| "dispatch_locks (CompactCommand t) snap =
     map DatasetLock (if t = Smart then compact_smart_candidates snap
                      else compact_full_candidates snap)"
| "dispatch_locks (TaintCommand dataset m t) snap = [DatasetLock dataset]"
| "dispatch_locks _ snap = []"

section \<open>The coordinator (NetworkService.cpp)\<close>

subsection \<open>Snapshot locks and the Database\<close>

text \<open>Modelled from the spec: \<open>DatabaseSnapshot::lock_dataset\<close>, \<open>is_dataset_locked\<close>,
  \<open>lock_iterator\<close> and \<open>is_iterator_locked\<close> are not in the sources at hand; a snapshot
  carries its own collection of locally held locks, which they extend and query.\<close>

definition lock_dataset :: "string \<Rightarrow> 'k DatabaseSnapshot \<Rightarrow> 'k DatabaseSnapshot" where
  "lock_dataset ds_name sn = sn\<lparr>locked_datasets := insert ds_name (locked_datasets sn)\<rparr>"

definition is_dataset_locked :: "'k DatabaseSnapshot \<Rightarrow> string \<Rightarrow> bool" where
  "is_dataset_locked sn ds_name = (ds_name \<in> locked_datasets sn)"

definition lock_iterator :: "string \<Rightarrow> 'k DatabaseSnapshot \<Rightarrow> 'k DatabaseSnapshot" where
  "lock_iterator iterator_name sn =
     sn\<lparr>locked_iterators := insert iterator_name (locked_iterators sn)\<rparr>"

definition is_iterator_locked :: "'k DatabaseSnapshot \<Rightarrow> string \<Rightarrow> bool" where
  "is_iterator_locked sn iterator_name = (iterator_name \<in> locked_iterators sn)"

text \<open>
  The Database as the coordinator sees it: the published view (datasets and
  configuration), the counter of task ids, the registry of live tasks (by id), and the
  arguments of the garbage collections so far. A snapshot is addressed by the identity of
  the worker context that holds it.
\<close>

record 'k Database =
  published :: "'k DatabaseSnapshot"
  last_task_id :: nat
  live_tasks :: "nat list"
  collected :: "string set list"

text \<open>Modelled from the spec: \<open>Database::snapshot\<close> is not in the sources at hand; it
  returns a view of the current datasets and configuration, whose lock record is its own
  and starts empty.\<close>

definition db_snapshot :: "'k Database \<Rightarrow> 'k DatabaseSnapshot" where
  "db_snapshot d = (published d)\<lparr>locked_datasets := {}, locked_iterators := {}\<rparr>"

text \<open>Modelled from the spec: \<open>Database::allocate_task\<close> is not in the sources at hand; it
  constructs a Task with a fresh monotonic id and registers it in the task registry. The
  coordinator keeps the pointer to the Task, which is modelled by the id.\<close>

definition db_allocate_task :: "string \<Rightarrow> string \<Rightarrow> 'k Database \<Rightarrow> nat \<times> 'k Database" where
  "db_allocate_task req conn d =
     (let new_id = last_task_id d + 1
      in (new_id, d\<lparr>last_task_id := new_id, live_tasks := live_tasks d @ [new_id]\<rparr>))"

text \<open>Modelled from the spec: \<open>Database::commit_task\<close> is not in the sources at hand; it
  applies the changes of the task to the published state (the parameter \<open>ce\<close> gives the
  published view after the changes of that task), and the task is destroyed.\<close>

definition db_commit_task ::
  "(nat \<Rightarrow> 'k DatabaseSnapshot \<Rightarrow> 'k DatabaseSnapshot) \<Rightarrow> nat \<Rightarrow> 'k Database \<Rightarrow> 'k Database" where
  "db_commit_task ce did_task d =
     d\<lparr>published := ce did_task (published d), live_tasks := remove1 did_task (live_tasks d)\<rparr>"

text \<open>Modelled from the spec: \<open>Database::collect_garbage\<close> is not in the sources at hand;
  it works on the files on disk, and the model records the set it was called with.\<close>

definition db_collect_garbage :: "string set \<Rightarrow> 'k Database \<Rightarrow> 'k Database" where
  "db_collect_garbage active_snapshots d = d\<lparr>collected := collected d @ [active_snapshots]\<rparr>"

subsection \<open>State of the service\<close>

datatype NetAction = Ready | Response | DatasetLockReq | IteratorLockReq

datatype NetLockResp = LockOk | LockDenied

text \<open>A frame sent with \<open>s_send\<close> or with \<open>s_send_val<NetLockResp>\<close>.\<close>

datatype frame_out = Frame string | LockRespFrame NetLockResp

text \<open>The \<open>Task *\<close> of a worker context is null or points to a Task of the Database.\<close>

record 'k WorkerContext =
  identity :: string
  snap :: "'k DatabaseSnapshot"
  task :: "nat option"

text \<open>
  The members \<open>wctxs\<close>, \<open>worker_queue\<close> and \<open>db\<close>, and the two sockets: the frames that
  have arrived and are not read yet, in order, and the frames sent so far. The map
  \<open>wctxs\<close> is a list of entries; the loops over it compute an existential and a set,
  which do not depend on the order of iteration.
\<close>

record 'k NetworkService =
  wctxs :: "(string \<times> 'k WorkerContext) list"
  worker_queue :: "string list"
  db :: "'k Database"
  backend_in :: "string list"
  frontend_in :: "string list"
  backend_out :: "frame_out list"
  frontend_out :: "string list"

text \<open>
  How a call can fail to return a state: an exception leaves the function (nothing in
  NetworkService.cpp catches one), \<open>s_recv\<close> waits for a frame that has not arrived, or
  the code dereferences a null pointer or reads the front of an empty queue.
\<close>

datatype halt = Exception exn | Blocked | Undefined_behaviour

definition and_then :: "halt + 'a \<Rightarrow> ('a \<Rightarrow> halt + 'b) \<Rightarrow> halt + 'b" where
  "and_then m f = (case m of Inl h \<Rightarrow> Inl h | Inr x \<Rightarrow> f x)"

definition s_recv_backend :: "'k NetworkService \<Rightarrow> halt + string \<times> 'k NetworkService" where
  "s_recv_backend s =
     (case backend_in s of [] \<Rightarrow> Inl Blocked | f # fs \<Rightarrow> Inr (f, s\<lparr>backend_in := fs\<rparr>))"

definition s_recv_frontend :: "'k NetworkService \<Rightarrow> halt + string \<times> 'k NetworkService" where
  "s_recv_frontend s =
     (case frontend_in s of [] \<Rightarrow> Inl Blocked | f # fs \<Rightarrow> Inr (f, s\<lparr>frontend_in := fs\<rparr>))"

text \<open>\<^verbatim>\<open>if (s_recv(socket).size() != 0) throw std::runtime_error("Expected zero-size frame")\<close>\<close>

definition expect_zero_size :: "string \<Rightarrow> halt + unit" where
  "expect_zero_size frame =
     (if length frame \<noteq> 0 then Inl (Exception (Runtime_error ''Expected zero-size frame''))
      else Inr ())"

definition s_send_backend :: "frame_out list \<Rightarrow> 'k NetworkService \<Rightarrow> 'k NetworkService" where
  "s_send_backend frames s = s\<lparr>backend_out := backend_out s @ frames\<rparr>"

definition s_send_frontend :: "string list \<Rightarrow> 'k NetworkService \<Rightarrow> 'k NetworkService" where
  "s_send_frontend frames s = s\<lparr>frontend_out := frontend_out s @ frames\<rparr>"

text \<open>A write through the pointer \<open>wctx\<close>, which points to the entry of its identity.\<close>

definition update_wctx ::
  "string \<Rightarrow> ('k WorkerContext \<Rightarrow> 'k WorkerContext) \<Rightarrow> (string \<times> 'k WorkerContext) list
     \<Rightarrow> (string \<times> 'k WorkerContext) list" where
  "update_wctx a f ws = map (\<lambda>(k, w). if k = a then (k, f w) else (k, w)) ws"

text \<open>\<^verbatim>\<open>wctxs[identity] = ...\<close>\<close>

definition store_wctx ::
  "string \<Rightarrow> 'k WorkerContext \<Rightarrow> (string \<times> 'k WorkerContext) list
     \<Rightarrow> (string \<times> 'k WorkerContext) list" where
  "store_wctx a w ws =
     (if a \<in> set (map fst ws) then update_wctx a (\<lambda>_. w) ws else ws @ [(a, w)])"

subsection \<open>The handlers\<close>

definition commit_task ::
  "(nat \<Rightarrow> 'k DatabaseSnapshot \<Rightarrow> 'k DatabaseSnapshot) \<Rightarrow> string \<Rightarrow> 'k NetworkService
     \<Rightarrow> halt + 'k NetworkService" where
  "commit_task ce wctx s =
     (case map_of (wctxs s) wctx of
        None \<Rightarrow> Inl Undefined_behaviour
      | Some w \<Rightarrow>
          (case task w of
             None \<Rightarrow> Inl Undefined_behaviour
           | Some did_task \<Rightarrow>
               Inr (s\<lparr>db := db_commit_task ce did_task (db s),
                      wctxs := update_wctx wctx (\<lambda>w. w\<lparr>task := None\<rparr>) (wctxs s)\<rparr>)))"

text \<open>The do-while loop that collects \<open>ds_names\<close>, on the unread frames of the backend:
  the result is the collected list and the frames left unread.\<close>

fun recv_ds_names :: "string list \<Rightarrow> string list \<Rightarrow> halt + string list \<times> string list" where
  "recv_ds_names ds_names [] = Inl Blocked"
| "recv_ds_names ds_names [z] =
     (case expect_zero_size z of Inl h \<Rightarrow> Inl h | Inr _ \<Rightarrow> Inl Blocked)"
| "recv_ds_names ds_names (z # recv_ds_name # rest) =
     (case expect_zero_size z of
        Inl h \<Rightarrow> Inl h
      | Inr _ \<Rightarrow>
          if recv_ds_name \<noteq> [] then recv_ds_names (ds_names @ [recv_ds_name]) rest
          else Inr (ds_names @ [recv_ds_name], rest))"

definition dataset_already_locked ::
  "(string \<times> 'k WorkerContext) list \<Rightarrow> string list \<Rightarrow> bool" where
  "dataset_already_locked ws ds_names =
     list_ex (\<lambda>ds_name. list_ex (\<lambda>(a, w). task w \<noteq> None \<and> is_dataset_locked (snap w) ds_name) ws)
       ds_names"

definition handle_dataset_lock_req ::
  "string \<Rightarrow> string \<Rightarrow> 'k NetworkService \<Rightarrow> halt + 'k NetworkService" where
  "handle_dataset_lock_req wctx worker_addr s =
     (case recv_ds_names [] (backend_in s) of
        Inl h \<Rightarrow> Inl h
      | Inr (ds_names, unread) \<Rightarrow>
          (let s1 = s_send_backend [Frame worker_addr, Frame ''''] (s\<lparr>backend_in := unread\<rparr>)
           in if \<not> dataset_already_locked (wctxs s1) ds_names
              then Inr (s_send_backend [LockRespFrame LockOk]
                     (s1\<lparr>wctxs := update_wctx wctx
                            (\<lambda>w. w\<lparr>snap := foldl (\<lambda>sn ds_name. lock_dataset ds_name sn) (snap w) ds_names\<rparr>)
                            (wctxs s1)\<rparr>))
              else Inr (s_send_backend [LockRespFrame LockDenied] s1)))"

definition iterator_already_locked ::
  "(string \<times> 'k WorkerContext) list \<Rightarrow> string \<Rightarrow> bool" where
  "iterator_already_locked ws iterator_name =
     list_ex (\<lambda>(a, w). task w \<noteq> None \<and> is_iterator_locked (snap w) iterator_name) ws"

definition handle_iterator_lock_req ::
  "string \<Rightarrow> string \<Rightarrow> 'k NetworkService \<Rightarrow> halt + 'k NetworkService" where
  "handle_iterator_lock_req wctx worker_addr s =
     and_then (s_recv_backend s) (\<lambda>(z1, s1).
     and_then (expect_zero_size z1) (\<lambda>_.
     and_then (s_recv_backend s1) (\<lambda>(iterator_name, s2).
     and_then (s_recv_backend s2) (\<lambda>(z2, s3).
     and_then (expect_zero_size z2) (\<lambda>_.
       (let s4 = s_send_backend [Frame worker_addr, Frame ''''] s3
        in if \<not> iterator_already_locked (wctxs s4) iterator_name
           then Inr (s_send_backend [LockRespFrame LockOk]
                  (s4\<lparr>wctxs := update_wctx wctx
                         (\<lambda>w. w\<lparr>snap := lock_iterator iterator_name (snap w)\<rparr>) (wctxs s4)\<rparr>))
           else Inr (s_send_backend [LockRespFrame LockDenied] s4)))))))"

text \<open>The set of \<^verbatim>\<open>&p.second->snap\<close> over the entries with a non-null task.\<close>

definition working_snapshots :: "(string \<times> 'k WorkerContext) list \<Rightarrow> string set" where
  "working_snapshots ws = set (map fst (filter (\<lambda>(a, w). task w \<noteq> None) ws))"

definition handle_response ::
  "(nat \<Rightarrow> 'k DatabaseSnapshot \<Rightarrow> 'k DatabaseSnapshot) \<Rightarrow> string \<Rightarrow> 'k NetworkService
     \<Rightarrow> halt + 'k NetworkService" where
  "handle_response ce wctx s =
     and_then (s_recv_backend s) (\<lambda>(z1, s1).
     and_then (expect_zero_size z1) (\<lambda>_.
     and_then (s_recv_backend s1) (\<lambda>(client_addr, s2).
     and_then (s_recv_backend s2) (\<lambda>(z2, s3).
     and_then (expect_zero_size z2) (\<lambda>_.
     and_then (s_recv_backend s3) (\<lambda>(reply, s4).
     and_then (commit_task ce wctx (s_send_frontend [client_addr, '''', reply] s4)) (\<lambda>s5.
       Inr (s5\<lparr>db := db_collect_garbage (working_snapshots (wctxs s5)) (db s5)\<rparr>))))))))"

text \<open>
  \<^verbatim>\<open>s_recv_val<NetAction>\<close> is declared in ZHelpers.h, which is not in the sources at hand:
  the parameter \<open>dec\<close> gives the value that a frame carries, and \<open>None\<close> when it is none
  of the four enumerators, in which case no \<open>case\<close> of the \<open>switch\<close> is taken.
\<close>

definition poll_backend ::
  "(nat \<Rightarrow> 'k DatabaseSnapshot \<Rightarrow> 'k DatabaseSnapshot) \<Rightarrow> (string \<Rightarrow> NetAction option)
     \<Rightarrow> 'k NetworkService \<Rightarrow> halt + 'k NetworkService" where
  "poll_backend ce dec s =
     and_then (s_recv_backend s) (\<lambda>(worker_addr, s1).
       (case map_of (wctxs s1) worker_addr of
          None \<Rightarrow> Inl (Exception (Other_exn ''std::out_of_range''))
        | Some _ \<Rightarrow>
            and_then (s_recv_backend s1) (\<lambda>(z, s2).
            and_then (expect_zero_size z) (\<lambda>_.
            and_then (s_recv_backend s2) (\<lambda>(resp_type, s3).
              (case dec resp_type of
                 Some DatasetLockReq \<Rightarrow> handle_dataset_lock_req worker_addr worker_addr s3
               | Some IteratorLockReq \<Rightarrow> handle_iterator_lock_req worker_addr worker_addr s3
               | Some Response \<Rightarrow>
                   handle_response ce worker_addr
                     (s3\<lparr>worker_queue := worker_queue s3 @ [worker_addr]\<rparr>)
               | Some Ready \<Rightarrow> Inr (s3\<lparr>worker_queue := worker_queue s3 @ [worker_addr]\<rparr>)
               | None \<Rightarrow> Inr s3))))))"

definition poll_frontend :: "'k NetworkService \<Rightarrow> halt + 'k NetworkService" where
  "poll_frontend s =
     and_then (s_recv_frontend s) (\<lambda>(client_addr, s1).
     and_then (s_recv_frontend s1) (\<lambda>(z, s2).
     and_then (expect_zero_size z) (\<lambda>_.
     and_then (s_recv_frontend s2) (\<lambda>(req, s3).
       (case worker_queue s3 of
          [] \<Rightarrow> Inl Undefined_behaviour
        | worker_addr # queue_rest \<Rightarrow>
            (case map_of (wctxs s3) worker_addr of
               None \<Rightarrow> Inl (Exception (Other_exn ''std::out_of_range''))
             | Some _ \<Rightarrow>
                 (let (new_task, db1) = db_allocate_task req client_addr (db s3);
                      new_snap = db_snapshot db1
                  in Inr (s_send_backend
                       [Frame worker_addr, Frame '''', Frame client_addr, Frame '''', Frame req]
                       (s3\<lparr>worker_queue := queue_rest, db := db1,
                           wctxs := update_wctx worker_addr
                             (\<lambda>w. w\<lparr>task := Some new_task, snap := new_snap\<rparr>) (wctxs s3)\<rparr>)))))))))"

subsection \<open>The loop of \<open>NetworkService::run\<close>\<close>

text \<open>
  \<open>zmq::poll\<close> on the first \<open>nitems\<close> items (backend, then frontend) without a timeout:
  it returns once a polled socket has an unread frame, with \<open>ZMQ_POLLIN\<close> set in the
  \<open>revents\<close> of exactly the polled sockets that have one; \<open>revents\<close> of an item that is
  not polled keeps its initial 0. \<open>None\<close>: the call has not returned.
\<close>

definition zmq_poll :: "'k NetworkService \<Rightarrow> nat \<Rightarrow> (bool \<times> bool) option" where
  "zmq_poll s nitems =
     (let backend_revents = (1 \<le> nitems \<and> backend_in s \<noteq> []);
          frontend_revents = (2 \<le> nitems \<and> frontend_in s \<noteq> [])
      in if backend_revents \<or> frontend_revents then Some (backend_revents, frontend_revents)
         else None)"

definition run_iteration ::
  "(nat \<Rightarrow> 'k DatabaseSnapshot \<Rightarrow> 'k DatabaseSnapshot) \<Rightarrow> (string \<Rightarrow> NetAction option)
     \<Rightarrow> 'k NetworkService \<Rightarrow> halt + 'k NetworkService" where
  "run_iteration ce dec s =
     (case zmq_poll s (if length (worker_queue s) \<noteq> 0 then 2 else 1) of
        None \<Rightarrow> Inl Blocked
      | Some (backend_revents, frontend_revents) \<Rightarrow>
          and_then (if backend_revents then poll_backend ce dec s else Inr s) (\<lambda>s1.
            if frontend_revents then poll_frontend s1 else Inr s1))"

text \<open>The state when the loop is entered: a context per worker, with a snapshot and a
  null task, and an empty queue.\<close>

definition initial :: "nat \<Rightarrow> 'k Database \<Rightarrow> 'k NetworkService" where
  "initial NUM_WORKERS db0 =
     \<lparr>wctxs = foldl (\<lambda>ws worker_no.
                 store_wctx (to_string worker_no)
                   \<lparr>identity = to_string worker_no, snap = db_snapshot db0, task = None\<rparr> ws)
               [] [0..<NUM_WORKERS],
      worker_queue = [], db = db0, backend_in = [], frontend_in = [],
      backend_out = [], frontend_out = []\<rparr>"

text \<open>
  An execution of the service: frames arrive on the backend (from the workers) and on the
  frontend (from the clients), and the loop makes iterations. An iteration that does not
  return a state ends the execution.
\<close>

datatype event = Backend_arrives "string list" | Frontend_arrives "string list" | Iteration

definition step ::
  "(nat \<Rightarrow> 'k DatabaseSnapshot \<Rightarrow> 'k DatabaseSnapshot) \<Rightarrow> (string \<Rightarrow> NetAction option)
     \<Rightarrow> event \<Rightarrow> 'k NetworkService \<Rightarrow> halt + 'k NetworkService" where
  "step ce dec ev s =
     (case ev of
        Backend_arrives frames \<Rightarrow> Inr (s\<lparr>backend_in := backend_in s @ frames\<rparr>)
      | Frontend_arrives frames \<Rightarrow> Inr (s\<lparr>frontend_in := frontend_in s @ frames\<rparr>)
      | Iteration \<Rightarrow> run_iteration ce dec s)"

fun exec ::
  "(nat \<Rightarrow> 'k DatabaseSnapshot \<Rightarrow> 'k DatabaseSnapshot) \<Rightarrow> (string \<Rightarrow> NetAction option)
     \<Rightarrow> event list \<Rightarrow> 'k NetworkService \<Rightarrow> halt + 'k NetworkService" where
  "exec ce dec [] s = Inr s"
| "exec ce dec (ev # evs) s = and_then (step ce dec ev s) (exec ce dec evs)"

subsection \<open>Predicates on executions\<close>

text \<open>
  Whether the iteration that starts in a state handles a Ready announcement: the backend
  has unread frames, and they start with a known identity, a zero-size frame and the
  Ready tag.
\<close>

definition handles_ready :: "(string \<Rightarrow> NetAction option) \<Rightarrow> 'k NetworkService \<Rightarrow> bool" where
  "handles_ready dec s =
     (case backend_in s of
        worker_addr # z # resp_type # _ \<Rightarrow>
          map_of (wctxs s) worker_addr \<noteq> None \<and> z = [] \<and> dec resp_type = Some Ready
      | _ \<Rightarrow> False)"

text \<open>The invariants used in the proofs: the snapshots of two different worker contexts
  with non-null tasks hold no common lock; and the tasks of the worker contexts are
  registered, pairwise different, and not beyond the counter of task ids.\<close>

definition busy_exclusive :: "(string \<times> 'k WorkerContext) list \<Rightarrow> bool" where
  "busy_exclusive ws \<longleftrightarrow>
     (\<forall>(a, wa) \<in> set ws. \<forall>(b, wb) \<in> set ws.
        a \<noteq> b \<and> task wa \<noteq> None \<and> task wb \<noteq> None \<longrightarrow>
          locked_datasets (snap wa) \<inter> locked_datasets (snap wb) = {}
          \<and> locked_iterators (snap wa) \<inter> locked_iterators (snap wb) = {})"

definition tasks_registered :: "'k NetworkService \<Rightarrow> bool" where
  "tasks_registered s \<longleftrightarrow>
     distinct (map fst (wctxs s))
     \<and> distinct (live_tasks (db s))
     \<and> (\<forall>t \<in> set (live_tasks (db s)). t \<le> last_task_id (db s))
     \<and> (\<forall>(a, w) \<in> set (wctxs s). \<forall>t. task w = Some t \<longrightarrow> t \<in> set (live_tasks (db s)))
     \<and> (\<forall>(a, w) \<in> set (wctxs s). \<forall>(b, w') \<in> set (wctxs s).
          a \<noteq> b \<and> task w \<noteq> None \<longrightarrow> task w \<noteq> task w')"

subsection \<open>The worker threads and the sockets between them and the loop\<close>

text \<open>
  \<open>WorkerContext::operator()\<close> runs in one thread per worker context. The thread is at one of
  four points: before the \<open>Ready\<close> announcement that precedes its loop; in the loop, at the
  \<open>s_recv\<close> that waits for the address of a dispatched request; inside
  \<open>dispatch_command_safe\<close>, with the address of the client saved; or inside
  \<open>dispatch_command_safe\<close> with a lock request sent and its reply not read yet. Its socket
  holds the frames that have been routed to it and are not read yet.
\<close>

datatype worker_pc = Starting | Receiving | Executing string | Awaiting_lock string

record worker_thread =
  pc :: worker_pc
  socket_in :: "frame_out list"

text \<open>Modelled from the spec: \<open>DatabaseHandle\<close>, through which the executor asks for
  locks, is not in the sources at hand; a dataset lock request carries the action tag and
  the name list followed by a terminating zero-size frame, and an iterator lock request the
  action tag and one name, in the frames that the handlers of the coordinator read: a
  zero-size frame before every name, and after the name of an iterator.\<close>

definition lock_request_frames :: "string list \<Rightarrow> string list" where
  "lock_request_frames names = concat (map (\<lambda>n. [[], n]) (names @ [[]]))"

text \<open>
  What a thread does next: the announcement; the three reads at the head of the loop; a
  lock request or the read of its reply, inside \<open>dispatch_command_safe\<close>; an exception
  that \<open>dispatch_command_safe\<close> lets through; the five frames of the response, whose text
  is the parameter of \<open>Answer\<close>.
\<close>

datatype worker_action =
    Announce
  | Take_request
  | Ask_dataset_lock "string list"
  | Ask_iterator_lock string
  | Take_lock_reply
  | Let_through exn
  | Answer string

text \<open>
  One action of a thread, given the \<open>task\<close> pointer of its context: the new state of the
  thread and the frames it sends on its socket. \<open>s_send_val<NetAction>\<close> is declared in
  ZHelpers.h, which is not in the sources at hand: the parameter \<open>enc\<close> gives the frame
  that carries a value. The result is \<open>Blocked\<close> when the thread is not at the point of
  that action, and when it reads before the message has arrived (a message arrives whole).
  An exception that leaves \<open>operator()\<close> ends the run, as does the null \<open>task\<close> that the
  thread would dereference when it prints the id of its task.
\<close>

fun worker_step ::
  "(NetAction \<Rightarrow> string) \<Rightarrow> worker_action \<Rightarrow> nat option \<Rightarrow> worker_thread
     \<Rightarrow> halt + worker_thread \<times> string list" where
  "worker_step enc Announce task_ptr t =
     (case pc t of
        Starting \<Rightarrow> Inr (t\<lparr>pc := Receiving\<rparr>, [enc Ready])
      | _ \<Rightarrow> Inl Blocked)"
| "worker_step enc Take_request task_ptr t =
     (case pc t of
        Receiving \<Rightarrow>
          (case socket_in t of
             Frame address # Frame z # Frame req # rest \<Rightarrow>
               if length z \<noteq> 0
               then Inl (Exception (Runtime_error ''Expected zero-size frame after address''))
               else if task_ptr = None then Inl Undefined_behaviour
               else Inr (t\<lparr>pc := Executing address, socket_in := rest\<rparr>, [])
           | _ \<Rightarrow> Inl Blocked)
      | _ \<Rightarrow> Inl Blocked)"
| "worker_step enc (Ask_dataset_lock names) task_ptr t =
     (case pc t of
        Executing address \<Rightarrow>
          Inr (t\<lparr>pc := Awaiting_lock address\<rparr>, enc DatasetLockReq # lock_request_frames names)
      | _ \<Rightarrow> Inl Blocked)"
| "worker_step enc (Ask_iterator_lock iterator_name) task_ptr t =
     (case pc t of
        Executing address \<Rightarrow>
          Inr (t\<lparr>pc := Awaiting_lock address\<rparr>, [enc IteratorLockReq, [], iterator_name, []])
      | _ \<Rightarrow> Inl Blocked)"
| "worker_step enc Take_lock_reply task_ptr t =
     (case pc t of
        Awaiting_lock address \<Rightarrow>
          (case socket_in t of
             LockRespFrame r # rest \<Rightarrow> Inr (t\<lparr>pc := Executing address, socket_in := rest\<rparr>, [])
           | _ \<Rightarrow> Inl Blocked)
      | _ \<Rightarrow> Inl Blocked)"
| "worker_step enc (Let_through e) task_ptr t =
     (case pc t of
        Executing address \<Rightarrow> Inl (Exception e)
      | _ \<Rightarrow> Inl Blocked)"
| "worker_step enc (Answer s) task_ptr t =
     (case pc t of
        Executing address \<Rightarrow> Inr (t\<lparr>pc := Receiving\<rparr>, [enc Response, [], address, [], s])
      | _ \<Rightarrow> Inl Blocked)"

text \<open>
  The service and its threads. The sockets of the threads are of type REQ and the backend
  is of type ROUTER: a message that a thread sends arrives on the backend after the
  identity of the thread and a zero-size frame; of a message that the loop sends on the
  backend, the first frame names the thread it goes to and is removed, as is the zero-size
  frame after it. The loop sends two kinds of messages on the backend, a reply to a lock
  request and a dispatched request.
\<close>

record 'k system =
  service :: "'k NetworkService"
  threads :: "(string \<times> worker_thread) list"

definition update_thread ::
  "string \<Rightarrow> (worker_thread \<Rightarrow> worker_thread) \<Rightarrow> (string \<times> worker_thread) list
     \<Rightarrow> (string \<times> worker_thread) list" where
  "update_thread a f ts = map (\<lambda>(k, t). if k = a then (k, f t) else (k, t)) ts"

fun route ::
  "frame_out list \<Rightarrow> (string \<times> worker_thread) list \<Rightarrow> (string \<times> worker_thread) list" where
  "route (Frame a # Frame z # LockRespFrame r # rest) ts =
     route rest (update_thread a (\<lambda>t. t\<lparr>socket_in := socket_in t @ [LockRespFrame r]\<rparr>) ts)"
| "route (Frame a # Frame z # Frame client_addr # Frame z' # Frame req # rest) ts =
     route rest
       (update_thread a
          (\<lambda>t. t\<lparr>socket_in := socket_in t @ [Frame client_addr, Frame z', Frame req]\<rparr>) ts)"
| "route frames ts = ts"

text \<open>
  What can happen in the system: a thread acts, frames of a client arrive on the frontend,
  or the loop makes an iteration, after which the frames it has sent on the backend are
  with the threads. \<open>NetworkService::run\<close> starts one thread per worker number, before
  its loop.
\<close>

datatype system_event =
    Worker_does string worker_action
  | Client_sends "string list"
  | Coordinator_iterates

definition system_step ::
  "(nat \<Rightarrow> 'k DatabaseSnapshot \<Rightarrow> 'k DatabaseSnapshot) \<Rightarrow> (NetAction \<Rightarrow> string)
     \<Rightarrow> (string \<Rightarrow> NetAction option) \<Rightarrow> system_event \<Rightarrow> 'k system \<Rightarrow> halt + 'k system" where
  "system_step ce enc dec ev S =
     (case ev of
        Worker_does a act \<Rightarrow>
          (case map_of (threads S) a of
             None \<Rightarrow> Inl Blocked
           | Some t \<Rightarrow>
               (case map_of (wctxs (service S)) a of
                  None \<Rightarrow> Inl Undefined_behaviour
                | Some w \<Rightarrow>
                    and_then (worker_step enc act (task w) t) (\<lambda>(t', sent).
                    and_then (step ce dec
                                (Backend_arrives (if sent = [] then [] else a # [] # sent))
                                (service S)) (\<lambda>s'.
                      Inr \<lparr>service = s', threads = update_thread a (\<lambda>_. t') (threads S)\<rparr>))))
      | Client_sends frames \<Rightarrow>
          and_then (step ce dec (Frontend_arrives frames) (service S)) (\<lambda>s'.
            Inr (S\<lparr>service := s'\<rparr>))
      | Coordinator_iterates \<Rightarrow>
          and_then (step ce dec Iteration (service S)) (\<lambda>s'.
            Inr \<lparr>service = s',
                 threads = route (drop (length (backend_out (service S))) (backend_out s'))
                             (threads S)\<rparr>))"

definition system_initial :: "nat \<Rightarrow> 'k Database \<Rightarrow> 'k system" where
  "system_initial NUM_WORKERS db0 =
     \<lparr>service = initial NUM_WORKERS db0,
      threads = map (\<lambda>worker_no. (to_string worker_no, \<lparr>pc = Starting, socket_in = []\<rparr>))
                  [0..<NUM_WORKERS]\<rparr>"

fun system_exec ::
  "(nat \<Rightarrow> 'k DatabaseSnapshot \<Rightarrow> 'k DatabaseSnapshot) \<Rightarrow> (NetAction \<Rightarrow> string)
     \<Rightarrow> (string \<Rightarrow> NetAction option) \<Rightarrow> system_event list \<Rightarrow> 'k system \<Rightarrow> halt + 'k system" where
  "system_exec ce enc dec [] S = Inr S"
| "system_exec ce enc dec (ev # evs) S =
     and_then (system_step ce enc dec ev S) (system_exec ce enc dec evs)"

text \<open>
  The messages of the threads as they lie on the backend: a message is the identity of
  a thread, a zero-size frame, an action tag, and the frames of that action; an
  announcement is a message with the tag \<open>Ready\<close>. \<open>started\<close> counts the threads that have
  sent their announcement.
\<close>

definition thread_message :: "(string \<Rightarrow> NetAction option) \<Rightarrow> string list \<Rightarrow> bool" where
  "thread_message dec m \<longleftrightarrow>
     (\<exists>a f rest. m = a # [] # f # rest \<and>
        (case dec f of
           None \<Rightarrow> False
         | Some Ready \<Rightarrow> rest = []
         | Some Response \<Rightarrow> (\<exists>client_addr reply. rest = [[], client_addr, [], reply])
         | Some DatasetLockReq \<Rightarrow>
             (\<exists>names. (\<forall>n \<in> set names. n \<noteq> []) \<and> rest = lock_request_frames names)
         | Some IteratorLockReq \<Rightarrow> (\<exists>iterator_name. rest = [[], iterator_name, []])))"

definition announcement :: "(string \<Rightarrow> NetAction option) \<Rightarrow> string list \<Rightarrow> bool" where
  "announcement dec m \<longleftrightarrow> (case m of a # z # f # _ \<Rightarrow> dec f = Some Ready | _ \<Rightarrow> False)"

definition started :: "(string \<times> worker_thread) list \<Rightarrow> nat" where
  "started ts = length (filter (\<lambda>(a, t). pc t \<noteq> Starting) ts)"

text \<open>
  The invariant of the system: the tasks are registered; the threads have pairwise
  different identities and the worker contexts have none of size zero; the unread frames
  of the backend are whole messages of threads, followed, once a thread has sent an empty
  name inside a name list, by frames that start with a zero-size frame; and the live tasks,
  the queued workers and the announcements not read yet together are no more than the
  threads that have announced themselves.
\<close>

definition system_invariant :: "(string \<Rightarrow> NetAction option) \<Rightarrow> 'k system \<Rightarrow> bool" where
  "system_invariant dec S \<longleftrightarrow>
     tasks_registered (service S)
     \<and> distinct (map fst (threads S))
     \<and> [] \<notin> set (map fst (wctxs (service S)))
     \<and> (\<exists>msgs tail.
          backend_in (service S) = concat msgs @ tail
          \<and> (\<forall>m \<in> set msgs. thread_message dec m)
          \<and> (tail = [] \<or> hd tail = [])
          \<and> length (live_tasks (db (service S))) + length (worker_queue (service S))
              + length (filter (announcement dec) msgs) \<le> started (threads S))"

section \<open>Concrete instances\<close>

text \<open>A configuration with the single key \<open>workers\<close>, a snapshot with one tainted dataset,
  a task, and collaborators whose parser knows a few command strings; used to evaluate the model
  on concrete inputs.\<close>

definition example_config :: "string DatabaseConfig" where
  "example_config =
     \<lparr>get = (\<lambda>k. 4), get_all = [''workers'' \<mapsto> 4], can_set = (\<lambda>k v. 1 \<le> v \<and> v \<le> 16)\<rparr>"

definition example_snapshot :: "string DatabaseSnapshot" where
  "example_snapshot =
     \<lparr>get_datasets = [\<lparr>get_id = ''ds1'', get_file_count = 3, get_taints = {''t1''},
                       get_indexes = []\<rparr>],
      get_config = example_config, get_tasks = [],
      compact_smart_candidates = [''ds1''], compact_full_candidates = [''ds1'', ''ds2''],
      locked_datasets = {}, locked_iterators = {}\<rparr>"

definition example_task :: Task where
  "example_task =
     \<lparr>task_id = 1, conn_id = ''c'', request = '''', changes = [],
      spec = \<lparr>spec_id = 1, hex_conn_id = ''63''\<rparr>\<rparr>"

definition example_engine :: "string Engine" where
  "example_engine =
     \<lparr>parse_command = (\<lambda>s. if s = ''ping'' then Returned PingCommand
                           else if s = ''taint ds2'' then Returned (TaintCommand ''ds2'' Add ''t1'')
                           else if s = ''compact'' then Returned (CompactCommand Smart)
                           else if s = ''reindex ds1'' then Returned (ReindexCommand ''ds1'' [])
                           else if s = ''oom'' then Thrown Bad_alloc
                           else if s = ''abort'' then Thrown (Other_exn ''std::logic_error'')
                           else Thrown (Runtime_error ''parse error'')),
      ConfigKey_parse = (\<lambda>s. if s = ''workers'' then Some s else None),
      allocate_name = (\<lambda>sn x. Thrown Bad_alloc),
      derive_name = (\<lambda>sn n x. Thrown Bad_alloc),
      execute_to_file = (\<lambda>sn q ts ds t p. (t, Thrown Bad_alloc)),
      execute_in_memory = (\<lambda>sn q ts ds t. (t, Thrown Bad_alloc)),
      construct_iterator = (\<lambda>m d n. Thrown Bad_alloc),
      read_iterator = (\<lambda>sn t i n. (t, Thrown (Runtime_error ''no such iterator''))),
      read_file = (\<lambda>p. Returned None),
      recursive_index_paths = (\<lambda>sn t its ts ps. (t, Returned ())),
      force_recursive_index_paths = (\<lambda>sn t its ts ps. (t, Returned ())),
      reindex_dataset = (\<lambda>sn t its d. (t, Thrown (Other_exn ''std::logic_error''))),
      compact_locked_datasets = (\<lambda>sn t. (t, Thrown Bad_alloc))\<rparr>"

text \<open>An encoding of the action tags, a Database that publishes the example snapshot, a
  commit that leaves the published view as it is, and the frames of three executions with
  two workers.\<close>

definition example_dec :: "string \<Rightarrow> NetAction option" where
  "example_dec frame =
     (if frame = ''Ready'' then Some Ready
      else if frame = ''Response'' then Some Response
      else if frame = ''DatasetLockReq'' then Some DatasetLockReq
      else if frame = ''IteratorLockReq'' then Some IteratorLockReq
      else None)"

definition example_db :: "string Database" where
  "example_db = \<lparr>published = example_snapshot, last_task_id = 0, live_tasks = [], collected = []\<rparr>"

definition example_ce :: "nat \<Rightarrow> string DatabaseSnapshot \<Rightarrow> string DatabaseSnapshot" where
  "example_ce did_task view = view"

text \<open>Both workers announce themselves; a client request goes to worker 0, which asks for
  the lock on \<open>ds1\<close>.\<close>

definition first_lock_events :: "event list" where
  "first_lock_events =
     [Backend_arrives [''0'', '''', ''Ready''], Iteration,
      Backend_arrives [''1'', '''', ''Ready''], Iteration,
      Frontend_arrives [''c1'', '''', ''reindex ds1''], Iteration,
      Backend_arrives [''0'', '''', ''DatasetLockReq'', '''', ''ds1'', '''', ''''], Iteration]"

text \<open>Worker 0 then asks for the lock on \<open>ds1\<close> once more.\<close>

definition repeated_lock_events :: "event list" where
  "repeated_lock_events =
     first_lock_events @
     [Backend_arrives [''0'', '''', ''DatasetLockReq'', '''', ''ds1'', '''', ''''], Iteration]"

text \<open>Or worker 0 answers its request; a second request goes to worker 1, which asks for
  the lock on \<open>ds1\<close>.\<close>

definition stale_lock_events :: "event list" where
  "stale_lock_events =
     first_lock_events @
     [Backend_arrives [''0'', '''', ''Response'', '''', ''c1'', '''', ''ok''], Iteration,
      Frontend_arrives [''c2'', '''', ''reindex ds1''], Iteration,
      Backend_arrives [''1'', '''', ''DatasetLockReq'', '''', ''ds1'', '''', ''''], Iteration]"

text \<open>A state with both workers at work, where worker 1 holds the dataset locks \<open>held\<close>
  and the backend has the unread frames \<open>frames\<close>.\<close>

definition example_service :: "string set \<Rightarrow> string list \<Rightarrow> string NetworkService" where
  "example_service held frames =
     \<lparr>wctxs = [(''0'', \<lparr>identity = ''0'', snap = db_snapshot example_db, task = Some 1\<rparr>),
               (''1'', \<lparr>identity = ''1'',
                        snap = (db_snapshot example_db)\<lparr>locked_datasets := held\<rparr>,
                        task = Some 2\<rparr>)],
      worker_queue = [],
      db = example_db\<lparr>last_task_id := 2, live_tasks := [1, 2]\<rparr>,
      backend_in = frames, frontend_in = [], backend_out = [], frontend_out = []\<rparr>"

text \<open>Or a second request goes to worker 1 while worker 0 is at work, and worker 1 asks for
  the lock on \<open>ds2\<close>.\<close>

definition both_busy_events :: "event list" where
  "both_busy_events =
     first_lock_events @
     [Frontend_arrives [''c2'', '''', ''reindex ds2''], Iteration,
      Backend_arrives [''1'', '''', ''DatasetLockReq'', '''', ''ds2'', '''', ''''], Iteration]"

text \<open>An encoding of the action tags that \<open>example_dec\<close> reads back, and an execution of the
  system with two workers: both threads announce themselves, two requests are
  dispatched, worker 0 takes its request, and a third request arrives.\<close>

definition example_enc :: "NetAction \<Rightarrow> string" where
  "example_enc act =
     (case act of Ready \<Rightarrow> ''Ready'' | Response \<Rightarrow> ''Response''
      | DatasetLockReq \<Rightarrow> ''DatasetLockReq'' | IteratorLockReq \<Rightarrow> ''IteratorLockReq'')"

definition saturating_events :: "system_event list" where
  "saturating_events =
     [Worker_does ''0'' Announce, Worker_does ''1'' Announce,
      Coordinator_iterates, Coordinator_iterates,
      Client_sends [''c1'', '''', ''ping''], Coordinator_iterates,
      Client_sends [''c2'', '''', ''ping''], Coordinator_iterates,
      Worker_does ''0'' Take_request,
      Client_sends [''c3'', '''', ''ping'']]"

text \<open>Then worker 0 answers, and the loop makes two iterations: the first reads the
  response, the second reads the third request.\<close>

definition draining_events :: "system_event list" where
  "draining_events =
     saturating_events @
     [Worker_does ''0'' (Answer ''pong''), Coordinator_iterates, Coordinator_iterates]"

section \<open>Properties of the command executor\<close>

subsection \<open>Decimal formatting\<close>

lemma digit_val_digit_char: "d < 10 \<Longrightarrow> digit_val (digit_char d) = d"
proof -
  assume "d < 10"
  then have "d \<in> {0, 1, 2, 3, 4, 5, 6, 7, 8, 9}" by auto
  then show ?thesis by (auto simp: digit_val_def digit_char_def)
qed

lemma digit_char_digit: "d < 10 \<Longrightarrow> digit_char d \<in> set ''0123456789''"
  unfolding digit_char_def by (rule nth_mem) simp

lemma from_decimal_snoc: "from_decimal (s @ [c]) = 10 * from_decimal s + digit_val c"
  by (simp add: from_decimal_def)

lemma from_decimal_to_string: "from_decimal (to_string n) = n"
proof (induction n rule: to_string.induct)
  case (1 n)
  show ?case
  proof (cases "n < 10")
    case True
    then show ?thesis
      by (simp add: to_string.simps[of n] from_decimal_def digit_val_digit_char)
  next
    case False
    with 1 show ?thesis
      by (simp add: to_string.simps[of n] from_decimal_snoc digit_val_digit_char)
  qed
qed

lemma to_string_digits: "set (to_string n) \<subseteq> set ''0123456789''"
proof (induction n rule: to_string.induct)
  case (1 n)
  show ?case
  proof (cases "n < 10")
    case True
    then show ?thesis using digit_char_digit[of n] by (simp add: to_string.simps[of n])
  next
    case False
    with 1 show ?thesis using digit_char_digit[of "n mod 10"]
      by (simp add: to_string.simps[of n])
  qed
qed

subsection \<open>Taint\<close>

lemma find_dataset_Some_id: "find_dataset sn name = Some ds \<Longrightarrow> get_id ds = name"
  unfolding find_dataset_def by (auto simp: find_Some_iff)

lemma find_dataset_None_iff:
  "find_dataset sn name = None \<longleftrightarrow> (\<forall>ds \<in> set (get_datasets sn). get_id ds \<noteq> name)"
  unfolding find_dataset_def by (auto simp: find_None_iff)

text \<open>
  C3. A Taint command on a dataset that the snapshot has: when the dataset carries the tag
  and the mode is add, or does not carry it and the mode is remove, the task is returned
  unchanged with \<open>ok\<close>; otherwise exactly one \<open>ToggleTaint\<close> change (dataset, tag) is appended
  to the changes of the task, with \<open>ok\<close>. On a dataset that the snapshot does not have (no
  dataset of that id in its list), the executor throws a runtime error and leaves the task
  unchanged, and \<open>dispatch_command_safe\<close> turns this into an error response, the task still
  unchanged.
\<close>

theorem taint_command_changes:
  "(find_dataset sn dataset = Some ds \<longrightarrow>
      get_id ds = dataset \<and>
      dispatch_command E (TaintCommand dataset mode taint) tk sn =
        (if (taint \<in> get_taints ds \<and> mode = Add) \<or> (taint \<notin> get_taints ds \<and> mode = Remove)
         then (tk, Returned Response_ok)
         else (tk\<lparr>changes := changes tk @ [DBChange ToggleTaint [dataset, taint]]\<rparr>,
               Returned Response_ok)))
   \<and> ((\<forall>d \<in> set (get_datasets sn). get_id d \<noteq> dataset) \<longrightarrow>
        find_dataset sn dataset = None \<and>
        dispatch_command E (TaintCommand dataset mode taint) tk sn =
          (tk, Thrown (Runtime_error ''can't taint non-existent dataset'')) \<and>
        (parse_command E cmd_str = Returned (TaintCommand dataset mode taint) \<longrightarrow>
           dispatch_command_safe E cmd_str tk sn =
             (tk, Returned (Response_error ''can't taint non-existent dataset''))))"
proof (intro conjI impI)
  assume f: "find_dataset sn dataset = Some ds"
  show "get_id ds = dataset" using f by (rule find_dataset_Some_id)
  show "dispatch_command E (TaintCommand dataset mode taint) tk sn =
        (if (taint \<in> get_taints ds \<and> mode = Add) \<or> (taint \<notin> get_taints ds \<and> mode = Remove)
         then (tk, Returned Response_ok)
         else (tk\<lparr>changes := changes tk @ [DBChange ToggleTaint [dataset, taint]]\<rparr>,
               Returned Response_ok))"
    using f by (cases mode) (simp_all add: execute_taint_def change_def)
next
  assume n: "\<forall>d \<in> set (get_datasets sn). get_id d \<noteq> dataset"
  then show none: "find_dataset sn dataset = None" by (simp add: find_dataset_None_iff)
  then show thrown: "dispatch_command E (TaintCommand dataset mode taint) tk sn =
          (tk, Thrown (Runtime_error ''can't taint non-existent dataset''))"
    by (simp add: execute_taint_def)
  assume "parse_command E cmd_str = Returned (TaintCommand dataset mode taint)"
  then show "dispatch_command_safe E cmd_str tk sn =
             (tk, Returned (Response_error ''can't taint non-existent dataset''))"
    using thrown by (simp add: dispatch_command_safe_def)
qed

theorem taint_command_changes_witness:
  "dispatch_command example_engine (TaintCommand ''ds1'' Add ''t1'') example_task example_snapshot
     = (example_task, Returned Response_ok)
   \<and> dispatch_command example_engine (TaintCommand ''ds1'' Add ''t2'') example_task example_snapshot
     = (example_task\<lparr>changes := [DBChange ToggleTaint [''ds1'', ''t2'']]\<rparr>, Returned Response_ok)
   \<and> dispatch_command_safe example_engine ''taint ds2'' example_task example_snapshot
     = (example_task, Returned (Response_error ''can't taint non-existent dataset''))"
proof -
  let ?ds = "\<lparr>get_id = ''ds1'', get_file_count = 3, get_taints = {''t1''}, get_indexes = []\<rparr>"
  have f: "find_dataset example_snapshot ''ds1'' = Some ?ds"
    by (simp add: find_dataset_def example_snapshot_def)
  have n: "\<forall>d \<in> set (get_datasets example_snapshot). get_id d \<noteq> ''ds2''"
    by (simp add: example_snapshot_def)
  have p: "parse_command example_engine ''taint ds2'' = Returned (TaintCommand ''ds2'' Add ''t1'')"
    by (simp add: example_engine_def)
  have c: "changes example_task = []" by (simp add: example_task_def)
  note absent = taint_command_changes[where sn = example_snapshot and dataset = "''ds2''"
      and E = example_engine and mode = Add and taint = "''t1''" and tk = example_task
      and cmd_str = "''taint ds2''", THEN conjunct2, THEN mp, OF n]
  have 1: "dispatch_command example_engine (TaintCommand ''ds1'' Add ''t1'') example_task
             example_snapshot = (example_task, Returned Response_ok)"
    using taint_command_changes[where sn = example_snapshot and dataset = "''ds1''"
      and ds = ?ds and E = example_engine and tk = example_task and mode = Add
      and taint = "''t1''", THEN conjunct1, THEN mp, OF f, THEN conjunct2] by simp
  have 2: "dispatch_command example_engine (TaintCommand ''ds1'' Add ''t2'') example_task
             example_snapshot
           = (example_task\<lparr>changes := [DBChange ToggleTaint [''ds1'', ''t2'']]\<rparr>,
              Returned Response_ok)"
    using taint_command_changes[where sn = example_snapshot and dataset = "''ds1''"
      and ds = ?ds and E = example_engine and tk = example_task and mode = Add
      and taint = "''t2''", THEN conjunct1, THEN mp, OF f, THEN conjunct2] c by simp
  have 3: "dispatch_command_safe example_engine ''taint ds2'' example_task example_snapshot
           = (example_task, Returned (Response_error ''can't taint non-existent dataset''))"
    using absent p by blast
  from 1 2 3 show ?thesis by blast
qed

subsection \<open>ConfigGet\<close>

lemma config_get_loop_lookup:
  "config_get_loop E cfg ks vals name =
     (if name \<in> set ks
      then (case ConfigKey_parse E name of Some k \<Rightarrow> Some (get cfg k) | None \<Rightarrow> vals name)
      else vals name)"
  by (induction ks arbitrary: vals) (auto split: option.splits)

text \<open>
  C4. A ConfigGet command with an empty key list answers with all the pairs of the
  configuration of the snapshot. With a non-empty key list it answers with a map (never
  an error, and the task is unchanged) that holds, for every requested name that
  \<open>ConfigKey::parse\<close> resolves, the value of the resolved key in the configuration of the
  snapshot, and holds nothing else: a requested name that does not parse is left out.
\<close>

theorem config_get_response:
  "(keys = [] \<longrightarrow>
      dispatch_command E (ConfigGetCommand keys) tk sn =
        (tk, Returned (Response_config (get_all (get_config sn)))))
   \<and> (keys \<noteq> [] \<longrightarrow>
        (\<exists>vals. dispatch_command E (ConfigGetCommand keys) tk sn =
                  (tk, Returned (Response_config vals))
           \<and> dom vals = {name \<in> set keys. ConfigKey_parse E name \<noteq> None}
           \<and> (\<forall>name key. name \<in> set keys \<and> ConfigKey_parse E name = Some key \<longrightarrow>
                 vals name = Some (get (get_config sn) key))))"
proof (intro conjI impI)
  assume "keys = []"
  then show "dispatch_command E (ConfigGetCommand keys) tk sn =
        (tk, Returned (Response_config (get_all (get_config sn))))"
    by (simp add: execute_config_get_def)
next
  assume ne: "keys \<noteq> []"
  let ?vals = "config_get_loop E (get_config sn) keys Map.empty"
  have 1: "dispatch_command E (ConfigGetCommand keys) tk sn =
             (tk, Returned (Response_config ?vals))"
    using ne by (simp add: execute_config_get_def)
  have 2: "dom ?vals = {name \<in> set keys. ConfigKey_parse E name \<noteq> None}"
    by (auto simp: dom_def config_get_loop_lookup split: if_splits option.splits)
  have 3: "\<forall>name key. name \<in> set keys \<and> ConfigKey_parse E name = Some key \<longrightarrow>
             ?vals name = Some (get (get_config sn) key)"
    by (simp add: config_get_loop_lookup)
  from 1 2 3 show "\<exists>vals. dispatch_command E (ConfigGetCommand keys) tk sn =
                  (tk, Returned (Response_config vals))
           \<and> dom vals = {name \<in> set keys. ConfigKey_parse E name \<noteq> None}
           \<and> (\<forall>name key. name \<in> set keys \<and> ConfigKey_parse E name = Some key \<longrightarrow>
                 vals name = Some (get (get_config sn) key))"
    by blast
qed

theorem config_get_response_witness:
  "dispatch_command example_engine (ConfigGetCommand []) example_task example_snapshot =
     (example_task, Returned (Response_config [''workers'' \<mapsto> 4]))
   \<and> (\<exists>vals. dispatch_command example_engine (ConfigGetCommand [''bogus'', ''workers''])
               example_task example_snapshot = (example_task, Returned (Response_config vals))
        \<and> dom vals = {''workers''} \<and> vals ''workers'' = Some 4 \<and> vals ''bogus'' = None)"
proof -
  have a: "get_all (get_config example_snapshot) = [''workers'' \<mapsto> 4]"
    by (simp add: example_snapshot_def example_config_def)
  have p1: "ConfigKey_parse example_engine ''bogus'' = None"
    by (simp add: example_engine_def)
  have p2: "ConfigKey_parse example_engine ''workers'' = Some ''workers''"
    by (simp add: example_engine_def)
  have "{name \<in> set [''bogus'', ''workers'']. ConfigKey_parse example_engine name \<noteq> None}
        = {name \<in> {''bogus'', ''workers''}. ConfigKey_parse example_engine name \<noteq> None}"
    by simp
  also have "\<dots> = {''workers''}"
    using p1 p2 by blast
  finally have b: "{name \<in> set [''bogus'', ''workers''].
                     ConfigKey_parse example_engine name \<noteq> None} = {''workers''}" .
  have c: "''workers'' \<in> set [''bogus'', ''workers''] \<and>
           ConfigKey_parse example_engine ''workers'' = Some ''workers''"
    using p2 by simp
  have d: "get (get_config example_snapshot) ''workers'' = 4"
    by (simp add: example_snapshot_def example_config_def)
  have ne: "[''bogus'', ''workers''] \<noteq> []" by simp
  note all_keys = config_get_response[where keys = "[]" and E = example_engine
      and tk = example_task and sn = example_snapshot, THEN conjunct1, THEN mp, OF refl]
  note some_keys = config_get_response[where keys = "[''bogus'', ''workers'']"
      and E = example_engine and tk = example_task and sn = example_snapshot,
      THEN conjunct2, THEN mp, OF ne]
  from some_keys obtain vals where
    v1: "dispatch_command example_engine (ConfigGetCommand [''bogus'', ''workers''])
           example_task example_snapshot = (example_task, Returned (Response_config vals))" and
    v2: "dom vals = {name \<in> set [''bogus'', ''workers''].
                       ConfigKey_parse example_engine name \<noteq> None}" and
    v3: "\<forall>name key. name \<in> set [''bogus'', ''workers''] \<and>
           ConfigKey_parse example_engine name = Some key \<longrightarrow>
           vals name = Some (get (get_config example_snapshot) key)"
    by blast
  from v2 b have w2: "dom vals = {''workers''}" by (simp only:)
  from v3 c have "vals ''workers'' = Some (get (get_config example_snapshot) ''workers'')"
    by blast
  with d have w3: "vals ''workers'' = Some 4" by (simp only:)
  from w2 have "''bogus'' \<notin> dom vals" by simp
  then have w4: "vals ''bogus'' = None" by (simp only: domIff not_not)
  from all_keys a have w1: "dispatch_command example_engine (ConfigGetCommand []) example_task
      example_snapshot = (example_task, Returned (Response_config [''workers'' \<mapsto> 4]))"
    by (simp only:)
  from w1 v1 w2 w3 w4 show ?thesis by blast
qed

subsection \<open>ConfigSet\<close>

text \<open>
  C5. A ConfigSet command whose key name does not parse answers with an error and leaves
  the task unchanged; one whose key parses and whose value the configuration refuses for
  that key answers with an error and leaves the task unchanged; otherwise exactly one
  \<open>ConfigChange\<close> change is appended, which carries the key name and the value as a
  decimal numeral (digits only, and reading them back gives the value), with \<open>ok\<close>.
\<close>

theorem config_set_response:
  "(ConfigKey_parse E key = None \<longrightarrow>
      (\<exists>msg. dispatch_command E (ConfigSetCommand key val) tk sn =
               (tk, Returned (Response_error msg))))
   \<and> (ConfigKey_parse E key = Some k \<and> \<not> can_set (get_config sn) k val \<longrightarrow>
        (\<exists>msg. dispatch_command E (ConfigSetCommand key val) tk sn =
                 (tk, Returned (Response_error msg))))
   \<and> (ConfigKey_parse E key = Some k \<and> can_set (get_config sn) k val \<longrightarrow>
        (\<exists>digits. dispatch_command E (ConfigSetCommand key val) tk sn =
                    (tk\<lparr>changes := changes tk @ [DBChange ConfigChange [key, digits]]\<rparr>,
                     Returned Response_ok)
           \<and> digits = to_string (unat val)
           \<and> set digits \<subseteq> set ''0123456789''
           \<and> from_decimal digits = unat val))"
proof (intro conjI impI)
  assume "ConfigKey_parse E key = None"
  then show "\<exists>msg. dispatch_command E (ConfigSetCommand key val) tk sn =
               (tk, Returned (Response_error msg))"
    by (simp add: execute_config_set_def)
next
  assume "ConfigKey_parse E key = Some k \<and> \<not> can_set (get_config sn) k val"
  then show "\<exists>msg. dispatch_command E (ConfigSetCommand key val) tk sn =
               (tk, Returned (Response_error msg))"
    by (simp add: execute_config_set_def)
next
  assume "ConfigKey_parse E key = Some k \<and> can_set (get_config sn) k val"
  then have "dispatch_command E (ConfigSetCommand key val) tk sn =
               (tk\<lparr>changes := changes tk @ [DBChange ConfigChange [key, to_string (unat val)]]\<rparr>,
                Returned Response_ok)"
    by (simp add: execute_config_set_def change_def)
  then show "\<exists>digits. dispatch_command E (ConfigSetCommand key val) tk sn =
                    (tk\<lparr>changes := changes tk @ [DBChange ConfigChange [key, digits]]\<rparr>,
                     Returned Response_ok)
           \<and> digits = to_string (unat val)
           \<and> set digits \<subseteq> set ''0123456789''
           \<and> from_decimal digits = unat val"
    using to_string_digits[of "unat val"] from_decimal_to_string[of "unat val"] by blast
qed

theorem config_set_response_witness:
  "(\<exists>msg. dispatch_command example_engine (ConfigSetCommand ''bogus'' 8) example_task
            example_snapshot = (example_task, Returned (Response_error msg)))
   \<and> (\<exists>msg. dispatch_command example_engine (ConfigSetCommand ''workers'' 100) example_task
            example_snapshot = (example_task, Returned (Response_error msg)))
   \<and> dispatch_command example_engine (ConfigSetCommand ''workers'' 12) example_task
       example_snapshot =
       (example_task\<lparr>changes := [DBChange ConfigChange [''workers'', ''12'']]\<rparr>,
        Returned Response_ok)"
proof -
  have p: "ConfigKey_parse example_engine ''bogus'' = None"
          "ConfigKey_parse example_engine ''workers'' = Some ''workers''"
    by (simp_all add: example_engine_def)
  have r: "\<not> can_set (get_config example_snapshot) ''workers'' 100"
          "can_set (get_config example_snapshot) ''workers'' 12"
    by (simp_all add: example_snapshot_def example_config_def)
  have t: "to_string (unat (12 :: 64 word)) = ''12''"
    by (simp add: to_string.simps digit_char_def)
  have c: "changes example_task = []" by (simp add: example_task_def)
  show ?thesis
    using config_set_response[where E = example_engine and key = "''bogus''" and val = 8
            and tk = example_task and sn = example_snapshot and k = "''workers''"]
          config_set_response[where E = example_engine and key = "''workers''" and val = 100
            and tk = example_task and sn = example_snapshot and k = "''workers''"]
          config_set_response[where E = example_engine and key = "''workers''" and val = 12
            and tk = example_task and sn = example_snapshot and k = "''workers''"]
          p r t c
    by simp
qed

subsection \<open>The safety wrapper\<close>

text \<open>
  C6. \<open>dispatch_command_safe\<close> parses the command string and runs the executor. When both
  return, it returns the response of the executor. When the parser or the executor throws
  a runtime error, it returns an error response with the message of that error; when
  either throws an allocation failure, it returns the error response \<open>out of memory\<close>.
  Any other exception leaves \<open>dispatch_command_safe\<close> as it was thrown. In every case the
  task is as the executor left it (untouched when the parser threw).
\<close>

theorem dispatch_command_safe_catches:
  "(parse_command E cmd_str = Returned cmd \<and>
    dispatch_command E cmd tk sn = (tk', Returned response) \<longrightarrow>
      dispatch_command_safe E cmd_str tk sn = (tk', Returned response))
   \<and> (parse_command E cmd_str = Thrown (Runtime_error what) \<longrightarrow>
        dispatch_command_safe E cmd_str tk sn = (tk, Returned (Response_error what)))
   \<and> (parse_command E cmd_str = Returned cmd \<and>
      dispatch_command E cmd tk sn = (tk', Thrown (Runtime_error what)) \<longrightarrow>
        dispatch_command_safe E cmd_str tk sn = (tk', Returned (Response_error what)))
   \<and> (parse_command E cmd_str = Thrown Bad_alloc \<longrightarrow>
        dispatch_command_safe E cmd_str tk sn = (tk, Returned (Response_error ''out of memory'')))
   \<and> (parse_command E cmd_str = Returned cmd \<and>
      dispatch_command E cmd tk sn = (tk', Thrown Bad_alloc) \<longrightarrow>
        dispatch_command_safe E cmd_str tk sn = (tk', Returned (Response_error ''out of memory'')))
   \<and> (parse_command E cmd_str = Thrown (Other_exn x) \<longrightarrow>
        dispatch_command_safe E cmd_str tk sn = (tk, Thrown (Other_exn x)))
   \<and> (parse_command E cmd_str = Returned cmd \<and>
      dispatch_command E cmd tk sn = (tk', Thrown (Other_exn x)) \<longrightarrow>
        dispatch_command_safe E cmd_str tk sn = (tk', Thrown (Other_exn x)))"
  by (simp add: dispatch_command_safe_def)

theorem dispatch_command_safe_catches_witness:
  "dispatch_command_safe example_engine ''ping'' example_task example_snapshot
     = (example_task, Returned (Response_ping ''63''))
   \<and> dispatch_command_safe example_engine ''selct'' example_task example_snapshot
     = (example_task, Returned (Response_error ''parse error''))
   \<and> dispatch_command_safe example_engine ''oom'' example_task example_snapshot
     = (example_task, Returned (Response_error ''out of memory''))
   \<and> dispatch_command_safe example_engine ''compact'' example_task example_snapshot
     = (example_task, Returned (Response_error ''out of memory''))
   \<and> dispatch_command_safe example_engine ''abort'' example_task example_snapshot
     = (example_task, Thrown (Other_exn ''std::logic_error''))
   \<and> dispatch_command_safe example_engine ''reindex ds1'' example_task example_snapshot
     = (example_task, Thrown (Other_exn ''std::logic_error''))"
proof -
  have p: "parse_command example_engine ''ping'' = Returned PingCommand"
    "parse_command example_engine ''selct'' = Thrown (Runtime_error ''parse error'')"
    "parse_command example_engine ''oom'' = Thrown Bad_alloc"
    "parse_command example_engine ''compact'' = Returned (CompactCommand Smart)"
    "parse_command example_engine ''abort'' = Thrown (Other_exn ''std::logic_error'')"
    "parse_command example_engine ''reindex ds1'' = Returned (ReindexCommand ''ds1'' [])"
    by (simp_all add: example_engine_def)
  have e: "dispatch_command example_engine PingCommand example_task example_snapshot
             = (example_task, Returned (Response_ping ''63''))"
    "dispatch_command example_engine (CompactCommand Smart) example_task example_snapshot
             = (example_task, Thrown Bad_alloc)"
    "dispatch_command example_engine (ReindexCommand ''ds1'' []) example_task example_snapshot
             = (example_task, Thrown (Other_exn ''std::logic_error''))"
    by (simp_all add: execute_ping_def execute_compact_def execute_reindex_def
          example_engine_def example_task_def)
  note safe = dispatch_command_safe_catches[where E = example_engine and tk = example_task
      and sn = example_snapshot]
  have 1: "dispatch_command_safe example_engine ''ping'' example_task example_snapshot
             = (example_task, Returned (Response_ping ''63''))"
    using safe[where cmd_str = "''ping''" and cmd = PingCommand and tk' = example_task
            and response = "Response_ping ''63''"] p(1) e(1) by blast
  have 2: "dispatch_command_safe example_engine ''selct'' example_task example_snapshot
             = (example_task, Returned (Response_error ''parse error''))"
    using safe[where cmd_str = "''selct''" and what = "''parse error''"] p(2) by blast
  have 3: "dispatch_command_safe example_engine ''oom'' example_task example_snapshot
             = (example_task, Returned (Response_error ''out of memory''))"
    using safe[where cmd_str = "''oom''"] p(3) by blast
  have 4: "dispatch_command_safe example_engine ''compact'' example_task example_snapshot
             = (example_task, Returned (Response_error ''out of memory''))"
    using safe[where cmd_str = "''compact''" and cmd = "CompactCommand Smart"
            and tk' = example_task] p(4) e(2) by blast
  have 5: "dispatch_command_safe example_engine ''abort'' example_task example_snapshot
             = (example_task, Thrown (Other_exn ''std::logic_error''))"
    using safe[where cmd_str = "''abort''" and x = "''std::logic_error''"] p(5) by blast
  have 6: "dispatch_command_safe example_engine ''reindex ds1'' example_task example_snapshot
             = (example_task, Thrown (Other_exn ''std::logic_error''))"
    using safe[where cmd_str = "''reindex ds1''" and cmd = "ReindexCommand ''ds1'' []"
            and tk' = example_task and x = "''std::logic_error''"] p(6) e(3) by blast
  from 1 2 3 4 5 6 show ?thesis by blast
qed

subsection \<open>The lock planner\<close>

text \<open>
  C7. The locks that the planner returns for a command and a snapshot: the iterator lock
  of the iterator id for IteratorPop; the dataset lock of the dataset id for Reindex; for
  Compact one dataset lock per candidate, in the order of the candidates, the smart
  candidates of the snapshot for the smart type and its full candidates otherwise; the
  dataset lock of the dataset for Taint; and no lock for every other command.
\<close>

theorem dispatch_locks_cases:
  "dispatch_locks cmd sn =
     (case cmd of
        IteratorPopCommand iterator_id n \<Rightarrow> [IteratorLock iterator_id]
      | ReindexCommand dataset_id its \<Rightarrow> [DatasetLock dataset_id]
      | CompactCommand Smart \<Rightarrow> map DatasetLock (compact_smart_candidates sn)
      | CompactCommand Full \<Rightarrow> map DatasetLock (compact_full_candidates sn)
      | TaintCommand dataset m t \<Rightarrow> [DatasetLock dataset]
      | SelectCommand q ts ds it \<Rightarrow> []
      | IndexFromCommand f its ts u \<Rightarrow> []
      | IndexCommand ps its ts u \<Rightarrow> []
      | ConfigGetCommand ks \<Rightarrow> []
      | ConfigSetCommand k v \<Rightarrow> []
      | StatusCommand \<Rightarrow> []
      | TopologyCommand \<Rightarrow> []
      | PingCommand \<Rightarrow> []
      | DatasetDropCommand d \<Rightarrow> [])"
  by (cases cmd) (auto split: CompactType.splits)

theorem dispatch_locks_cases_witness:
  "dispatch_locks (IteratorPopCommand ''it1'' 40) example_snapshot = [IteratorLock ''it1'']
   \<and> dispatch_locks (CompactCommand Smart) example_snapshot = [DatasetLock ''ds1'']
   \<and> dispatch_locks (CompactCommand Full) example_snapshot
        = [DatasetLock ''ds1'', DatasetLock ''ds2'']
   \<and> dispatch_locks (TaintCommand ''ds1'' Add ''t1'') example_snapshot = [DatasetLock ''ds1'']
   \<and> dispatch_locks (DatasetDropCommand ''ds1'') example_snapshot = []"
proof -
  have c: "compact_smart_candidates example_snapshot = [''ds1'']"
    "compact_full_candidates example_snapshot = [''ds1'', ''ds2'']"
    by (simp_all add: example_snapshot_def)
  show ?thesis
    using dispatch_locks_cases[of "IteratorPopCommand ''it1'' 40" example_snapshot]
      dispatch_locks_cases[of "CompactCommand Smart" example_snapshot]
      dispatch_locks_cases[of "CompactCommand Full" example_snapshot]
      dispatch_locks_cases[of "TaintCommand ''ds1'' Add ''t1''" example_snapshot]
      dispatch_locks_cases[of "DatasetDropCommand ''ds1''" example_snapshot] c
    by (simp del: dispatch_locks.simps)
qed

section \<open>Properties of the coordinator\<close>

subsection \<open>Basic facts\<close>

lemma and_then_Inl: "and_then (Inl h) f = Inl h"
  by (simp add: and_then_def)

lemma and_then_Inr: "and_then (Inr x) f = f x"
  by (simp add: and_then_def)

lemma and_then_eq_Inr:
  "and_then m f = Inr y \<longleftrightarrow> (\<exists>x. m = Inr x \<and> f x = Inr y)"
  by (cases m) (simp_all add: and_then_def)

lemma s_recv_backend_Cons:
  "backend_in s = f # fs \<Longrightarrow> s_recv_backend s = Inr (f, s\<lparr>backend_in := fs\<rparr>)"
  by (simp add: s_recv_backend_def)

lemma s_recv_backend_eq_Inr:
  "s_recv_backend s = Inr (f, s1) \<longleftrightarrow> (\<exists>fs. backend_in s = f # fs \<and> s1 = s\<lparr>backend_in := fs\<rparr>)"
  by (auto simp: s_recv_backend_def split: list.splits)

lemma s_recv_frontend_eq_Inr:
  "s_recv_frontend s = Inr (f, s1) \<longleftrightarrow> (\<exists>fs. frontend_in s = f # fs \<and> s1 = s\<lparr>frontend_in := fs\<rparr>)"
  by (auto simp: s_recv_frontend_def split: list.splits)

lemma expect_zero_size_eq_Inr: "expect_zero_size z = Inr u \<longleftrightarrow> z = []"
  by (simp add: expect_zero_size_def)

lemma map_fst_update_wctx: "map fst (update_wctx a f ws) = map fst ws"
  by (induction ws) (auto simp: update_wctx_def)

lemma map_of_update_wctx:
  "map_of (update_wctx a f ws) k = (if k = a then map_option f (map_of ws k) else map_of ws k)"
  by (induction ws) (auto simp: update_wctx_def)

lemma set_update_wctx:
  "set (update_wctx a f ws) = (\<lambda>(k, w). if k = a then (k, f w) else (k, w)) ` set ws"
  by (simp add: update_wctx_def)

lemma length_update_wctx: "length (update_wctx a f ws) = length ws"
  by (simp add: update_wctx_def)

lemma foldl_lock_dataset:
  "foldl (\<lambda>sn ds_name. lock_dataset ds_name sn) sn0 ds_names =
     sn0\<lparr>locked_datasets := locked_datasets sn0 \<union> set ds_names\<rparr>"
proof (induction ds_names arbitrary: sn0)
  case Nil
  then show ?case by simp
next
  case (Cons n ns)
  have "insert n (locked_datasets sn0) \<union> set ns = locked_datasets sn0 \<union> set (n # ns)"
    by auto
  with Cons show ?case by (simp add: lock_dataset_def)
qed

lemma dataset_already_locked_iff:
  "dataset_already_locked ws ds_names \<longleftrightarrow>
     (\<exists>(a, w) \<in> set ws. task w \<noteq> None \<and> (\<exists>n \<in> set ds_names. n \<in> locked_datasets (snap w)))"
  by (auto simp: dataset_already_locked_def list_ex_iff is_dataset_locked_def)

lemma iterator_already_locked_iff:
  "iterator_already_locked ws n \<longleftrightarrow>
     (\<exists>(a, w) \<in> set ws. task w \<noteq> None \<and> n \<in> locked_iterators (snap w))"
  by (auto simp: iterator_already_locked_def list_ex_iff is_iterator_locked_def)

subsection \<open>The framing of a dataset lock request\<close>

text \<open>The frames of a name list: a zero-size frame before every name, and the zero-size
  name that ends the list.\<close>

lemma recv_ds_names_framed:
  "\<forall>n \<in> set requested. n \<noteq> [] \<Longrightarrow>
   recv_ds_names acc (concat (map (\<lambda>n. [[], n]) (requested @ [[]])) @ unread)
     = Inr (acc @ requested @ [[]], unread)"
  by (induction requested arbitrary: acc) (simp_all add: expect_zero_size_def)

lemma recv_ds_names_Inr:
  "recv_ds_names acc fs = Inr (ds_names, unread) \<Longrightarrow>
   \<exists>requested. ds_names = acc @ requested @ [[]] \<and> (\<forall>n \<in> set requested. n \<noteq> [])
      \<and> fs = concat (map (\<lambda>n. [[], n]) (requested @ [[]])) @ unread"
proof (induction acc fs rule: recv_ds_names.induct)
  case (1 ds_names)
  then show ?case by simp
next
  case (2 ds_names z)
  then show ?case by (simp split: sum.splits)
next
  case (3 acc z name rest)
  from "3.prems" have z: "z = []"
    by (auto simp: expect_zero_size_def split: sum.splits if_splits)
  show ?case
  proof (cases "name = []")
    case True
    with "3.prems" z have "ds_names = acc @ [[]]" "unread = rest"
      by (simp_all add: expect_zero_size_def)
    with True z show ?thesis by (intro exI[of _ "[]"]) simp
  next
    case False
    with "3.prems" z have r: "recv_ds_names (acc @ [name]) rest = Inr (ds_names, unread)"
      by (simp add: expect_zero_size_def)
    have "expect_zero_size z = Inr ()" using z by (simp add: expect_zero_size_def)
    from "3.IH"[OF this False r] obtain requested where
      q: "ds_names = (acc @ [name]) @ requested @ [[]]" "\<forall>n \<in> set requested. n \<noteq> []"
         "rest = concat (map (\<lambda>n. [[], n]) (requested @ [[]])) @ unread"
      by blast
    with False z show ?thesis by (intro exI[of _ "name # requested"]) simp
  qed
qed

subsection \<open>Dataset lock requests\<close>

lemma handle_dataset_lock_req_collected:
  "recv_ds_names [] (backend_in s) = Inr (ds_names, unread) \<Longrightarrow>
   handle_dataset_lock_req a worker_addr s =
     Inr (if (\<exists>(b, w) \<in> set (wctxs s). task w \<noteq> None
                \<and> (\<exists>n \<in> set ds_names. n \<in> locked_datasets (snap w)))
          then s\<lparr>backend_in := unread,
                 backend_out := backend_out s @ [Frame worker_addr, Frame [], LockRespFrame LockDenied]\<rparr>
          else s\<lparr>backend_in := unread,
                 backend_out := backend_out s @ [Frame worker_addr, Frame [], LockRespFrame LockOk],
                 wctxs := update_wctx a
                   (\<lambda>w. w\<lparr>snap := (snap w)\<lparr>locked_datasets :=
                                 locked_datasets (snap w) \<union> set ds_names\<rparr>\<rparr>) (wctxs s)\<rparr>)"
proof -
  assume r: "recv_ds_names [] (backend_in s) = Inr (ds_names, unread)"
  let ?held = "\<exists>(b, w) \<in> set (wctxs s). task w \<noteq> None
      \<and> (\<exists>n \<in> set ds_names. n \<in> locked_datasets (snap w))"
  have iff: "dataset_already_locked (wctxs s) ds_names \<longleftrightarrow> ?held"
    by (rule dataset_already_locked_iff)
  show ?thesis
  proof (cases "dataset_already_locked (wctxs s) ds_names")
    case True
    with iff have "?held" by blast
    with True r show ?thesis
      by (simp add: handle_dataset_lock_req_def Let_def s_send_backend_def)
  next
    case False
    with iff have "\<not> ?held" by blast
    with False r show ?thesis
      by (simp add: handle_dataset_lock_req_def Let_def s_send_backend_def foldl_lock_dataset)
  qed
qed

text \<open>
  C1, as the code has it. A DatasetLockReq carries the requested names, each after a
  zero-size frame, and the zero-size name that ends the list. Whenever some worker context
  with a non-null task (the requester is one of those scanned) has a snapshot that holds a
  dataset lock on a requested name, the coordinator replies \<open>LockDenied\<close> and changes
  nothing else. As long as no snapshot of a worker context with a non-null task holds a
  lock on the empty name, it replies \<open>LockDenied\<close> only then, and otherwise it records a
  dataset lock for every requested name on the snapshot of the requester and replies
  \<open>LockOk\<close>; nothing is said here on whether the empty name is recorded with them.
\<close>

theorem dataset_lock_decision:
  assumes "\<forall>n \<in> set requested. n \<noteq> []"
    and "backend_in s = concat (map (\<lambda>n. [[], n]) (requested @ [[]])) @ unread"
  shows "((\<exists>(b, w) \<in> set (wctxs s). task w \<noteq> None
             \<and> (\<exists>n \<in> set requested. n \<in> locked_datasets (snap w)))
          \<longrightarrow> handle_dataset_lock_req a worker_addr s =
                Inr (s\<lparr>backend_in := unread,
                       backend_out := backend_out s
                         @ [Frame worker_addr, Frame [], LockRespFrame LockDenied]\<rparr>))
     \<and> ((\<forall>(b, w) \<in> set (wctxs s). task w \<noteq> None \<longrightarrow> [] \<notin> locked_datasets (snap w))
          \<longrightarrow> (\<exists>extra. extra \<subseteq> {[]}
                 \<and> handle_dataset_lock_req a worker_addr s =
                     Inr (if (\<exists>(b, w) \<in> set (wctxs s). task w \<noteq> None
                                \<and> (\<exists>n \<in> set requested. n \<in> locked_datasets (snap w)))
                          then s\<lparr>backend_in := unread,
                                 backend_out := backend_out s
                                   @ [Frame worker_addr, Frame [], LockRespFrame LockDenied]\<rparr>
                          else s\<lparr>backend_in := unread,
                                 backend_out := backend_out s
                                   @ [Frame worker_addr, Frame [], LockRespFrame LockOk],
                                 wctxs := update_wctx a
                                   (\<lambda>w. w\<lparr>snap := (snap w)\<lparr>locked_datasets :=
                                       locked_datasets (snap w) \<union> set requested \<union> extra\<rparr>\<rparr>)
                                   (wctxs s)\<rparr>)))"
proof -
  let ?conflict = "\<exists>(b, w) \<in> set (wctxs s). task w \<noteq> None
      \<and> (\<exists>n \<in> set requested. n \<in> locked_datasets (snap w))"
  let ?collected = "\<exists>(b, w) \<in> set (wctxs s). task w \<noteq> None
      \<and> (\<exists>n \<in> set (requested @ [[]]). n \<in> locked_datasets (snap w))"
  let ?denied = "s\<lparr>backend_in := unread,
      backend_out := backend_out s @ [Frame worker_addr, Frame [], LockRespFrame LockDenied]\<rparr>"
  have r: "recv_ds_names [] (backend_in s) = Inr (requested @ [[]], unread)"
    unfolding assms(2) using recv_ds_names_framed[OF assms(1), of "[]" unread] by simp
  note h = handle_dataset_lock_req_collected[OF r, of a worker_addr]
  have up: "?conflict \<Longrightarrow> ?collected" by fastforce
  have first: "handle_dataset_lock_req a worker_addr s = Inr ?denied" if "?conflict"
    using h up[OF that] by simp
  have second: "\<exists>extra. extra \<subseteq> {[]}
      \<and> handle_dataset_lock_req a worker_addr s =
          Inr (if ?conflict then ?denied
               else s\<lparr>backend_in := unread,
                      backend_out := backend_out s
                        @ [Frame worker_addr, Frame [], LockRespFrame LockOk],
                      wctxs := update_wctx a
                        (\<lambda>w. w\<lparr>snap := (snap w)\<lparr>locked_datasets :=
                            locked_datasets (snap w) \<union> set requested \<union> extra\<rparr>\<rparr>)
                        (wctxs s)\<rparr>)"
    if none: "\<forall>(b, w) \<in> set (wctxs s). task w \<noteq> None \<longrightarrow> [] \<notin> locked_datasets (snap w)"
  proof -
    from none have down: "?collected \<Longrightarrow> ?conflict" by fastforce
    with up have iff: "?collected \<longleftrightarrow> ?conflict" by blast
    have u: "locked_datasets sn \<union> set (requested @ [[]])
        = locked_datasets sn \<union> set requested \<union> {[]}" for sn :: "'a DatabaseSnapshot"
      by auto
    show ?thesis
    proof (cases "?conflict")
      case True
      from first[OF True] True show ?thesis by (intro exI[of _ "{[]}"]) simp
    next
      case False
      with iff have nc: "\<not> ?collected" by blast
      note g = h[unfolded if_not_P[OF nc] u]
      from False g show ?thesis by (intro exI[of _ "{[]}"]) (simp only: if_not_P, simp)
    qed
  qed
  from first second show ?thesis by blast
qed

text \<open>
  C10. Whenever the handler of a DatasetLockReq returns, the frames it has read are the
  requested (non-empty) names and the terminating zero-size name, each after a zero-size
  frame, and the list it has collected is the requested names followed by the empty
  string. When the reply is \<open>LockOk\<close>, the locks of the snapshot of the requester are those
  it held, the requested names, and the empty string.
\<close>

theorem lock_request_records_empty_name:
  assumes "handle_dataset_lock_req a worker_addr s = Inr s'"
  shows "\<exists>requested unread. (\<forall>n \<in> set requested. n \<noteq> [])
     \<and> backend_in s = concat (map (\<lambda>n. [[], n]) (requested @ [[]])) @ unread
     \<and> recv_ds_names [] (backend_in s) = Inr (requested @ [[]], unread)
     \<and> (last (backend_out s') = LockRespFrame LockOk \<longrightarrow>
          (\<forall>w. map_of (wctxs s) a = Some w \<longrightarrow>
             (\<exists>w'. map_of (wctxs s') a = Some w'
                \<and> locked_datasets (snap w') = locked_datasets (snap w) \<union> set requested \<union> {[]}
                \<and> [] \<in> locked_datasets (snap w'))))"
proof -
  from assms obtain ds_names unread where
    r: "recv_ds_names [] (backend_in s) = Inr (ds_names, unread)"
    by (auto simp: handle_dataset_lock_req_def split: sum.splits)
  from recv_ds_names_Inr[OF r] obtain requested where
    q: "ds_names = requested @ [[]]" "\<forall>n \<in> set requested. n \<noteq> []"
       "backend_in s = concat (map (\<lambda>n. [[], n]) (requested @ [[]])) @ unread"
    by auto
  note h = handle_dataset_lock_req_collected[OF r, of a worker_addr]
  have "\<exists>w'. map_of (wctxs s') a = Some w'
          \<and> locked_datasets (snap w') = locked_datasets (snap w) \<union> set requested \<union> {[]}
          \<and> [] \<in> locked_datasets (snap w')"
    if ok: "last (backend_out s') = LockRespFrame LockOk" and w: "map_of (wctxs s) a = Some w"
    for w
  proof -
    from h assms ok have "wctxs s' = update_wctx a
        (\<lambda>w. w\<lparr>snap := (snap w)\<lparr>locked_datasets :=
                      locked_datasets (snap w) \<union> set ds_names\<rparr>\<rparr>) (wctxs s)"
      by (auto split: if_splits)
    with w q(1) show ?thesis by (simp add: map_of_update_wctx Un_commute)
  qed
  with r q show ?thesis by blast
qed

subsection \<open>Responses\<close>

lemma working_snapshots_iff:
  "b \<in> working_snapshots ws \<longleftrightarrow> (\<exists>w. (b, w) \<in> set ws \<and> task w \<noteq> None)"
  by (force simp: working_snapshots_def)

lemma working_snapshots_cleared:
  "working_snapshots (update_wctx a (\<lambda>w. w\<lparr>task := None\<rparr>) ws) = working_snapshots ws - {a}"
  by (auto simp: working_snapshots_iff set_update_wctx split: if_splits) force+

text \<open>
  C8. A Response event of a worker whose task is not null (frames: identity, zero-size
  frame, the Response tag, zero-size frame, client address, zero-size frame, reply):
  \<open>poll_backend\<close> returns, and in the state it returns the three frames client address,
  zero-size frame, reply have been sent on the frontend; the task of the worker is null
  and nothing else of the worker contexts has changed; the identity of the worker is at
  the back of the queue; the Database has committed the task of that worker and then
  collected garbage, and the set handed to the garbage collection holds the snapshot of
  a worker context exactly when its task is not null after the commit, which excludes
  the worker that has just answered. In the code the push onto the queue comes first,
  before the frames of the reply are read.
\<close>

theorem response_event:
  assumes "backend_in s = worker_addr # [] # resp_type # [] # client_addr # [] # reply # unread"
    and "dec resp_type = Some Response"
    and "map_of (wctxs s) worker_addr = Some w"
    and "task w = Some did_task"
  shows "\<exists>s'. poll_backend ce dec s = Inr s'
     \<and> frontend_out s' = frontend_out s @ [client_addr, [], reply]
     \<and> wctxs s' = update_wctx worker_addr (\<lambda>w. w\<lparr>task := None\<rparr>) (wctxs s)
     \<and> map_of (wctxs s') worker_addr = Some (w\<lparr>task := None\<rparr>)
     \<and> worker_queue s' = worker_queue s @ [worker_addr]
     \<and> db s' = db_collect_garbage (working_snapshots (wctxs s'))
                 (db_commit_task ce did_task (db s))
     \<and> collected (db s') = collected (db s) @ [working_snapshots (wctxs s')]
     \<and> working_snapshots (wctxs s') = {b. \<exists>w'. (b, w') \<in> set (wctxs s') \<and> task w' \<noteq> None}
     \<and> working_snapshots (wctxs s') = working_snapshots (wctxs s) - {worker_addr}
     \<and> backend_in s' = unread \<and> backend_out s' = backend_out s
     \<and> frontend_in s' = frontend_in s"
proof -
  let ?s' = "s\<lparr>backend_in := unread,
               worker_queue := worker_queue s @ [worker_addr],
               frontend_out := frontend_out s @ [client_addr, [], reply],
               wctxs := update_wctx worker_addr (\<lambda>w. w\<lparr>task := None\<rparr>) (wctxs s),
               db := db_collect_garbage
                 (working_snapshots (update_wctx worker_addr (\<lambda>w. w\<lparr>task := None\<rparr>) (wctxs s)))
                 (db_commit_task ce did_task (db s))\<rparr>"
  have "poll_backend ce dec s = Inr ?s'"
    using assms
    by (simp add: poll_backend_def handle_response_def commit_task_def s_recv_backend_def
          expect_zero_size_def and_then_def s_send_frontend_def)
  moreover have "collected (db ?s') = collected (db s) @ [working_snapshots (wctxs ?s')]"
    by (simp add: db_collect_garbage_def db_commit_task_def)
  moreover have "working_snapshots (wctxs ?s') =
      {b. \<exists>w'. (b, w') \<in> set (wctxs ?s') \<and> task w' \<noteq> None}"
    by (auto simp: working_snapshots_iff; blast)
  moreover have "working_snapshots (wctxs ?s') = working_snapshots (wctxs s) - {worker_addr}"
    by (simp add: working_snapshots_cleared)
  moreover have "map_of (wctxs ?s') worker_addr = Some (w\<lparr>task := None\<rparr>)"
    using assms(3) by (simp add: map_of_update_wctx)
  ultimately show ?thesis by (intro exI[of _ ?s']) simp
qed

subsection \<open>Concrete executions\<close>

lemma to_string_0: "to_string 0 = ''0''"
  by (simp add: to_string.simps[of 0] digit_char_def)

lemma to_string_1: "to_string (Suc 0) = ''1''"
  by (simp add: to_string.simps[of "Suc 0"] digit_char_def)

lemmas run_simps = and_then_def step_def run_iteration_def zmq_poll_def poll_backend_def
  poll_frontend_def s_recv_backend_def s_recv_frontend_def expect_zero_size_def example_dec_def
  handle_dataset_lock_req_def handle_response_def commit_task_def s_send_backend_def
  s_send_frontend_def update_wctx_def dataset_already_locked_def is_dataset_locked_def
  lock_dataset_def db_allocate_task_def db_snapshot_def db_commit_task_def
  db_collect_garbage_def working_snapshots_def example_db_def example_ce_def initial_def
  numeral_2_eq_2 store_wctx_def to_string_0 to_string_1

lemma first_lock_state:
  "exec example_ce example_dec first_lock_events (initial 2 example_db) =
     Inr \<lparr>wctxs =
            [(''0'', \<lparr>identity = ''0'',
                     snap = example_snapshot\<lparr>locked_iterators := {},
                                              locked_datasets := {[], ''ds1''}\<rparr>,
                     task = Some (Suc 0)\<rparr>),
             (''1'', \<lparr>identity = ''1'',
                     snap = example_snapshot\<lparr>locked_datasets := {}, locked_iterators := {}\<rparr>,
                     task = None\<rparr>)],
          worker_queue = [''1''],
          db = \<lparr>published = example_snapshot, last_task_id = Suc 0, live_tasks = [Suc 0],
                 collected = []\<rparr>,
          backend_in = [], frontend_in = [],
          backend_out = [Frame ''0'', Frame [], Frame ''c1'', Frame [], Frame ''reindex ds1'',
                         Frame ''0'', Frame [], LockRespFrame LockOk],
          frontend_out = []\<rparr>"
  by (simp add: first_lock_events_def run_simps)

lemma repeated_lock_state:
  "exec example_ce example_dec repeated_lock_events (initial 2 example_db) =
     Inr \<lparr>wctxs =
            [(''0'', \<lparr>identity = ''0'',
                     snap = example_snapshot\<lparr>locked_iterators := {},
                                              locked_datasets := {[], ''ds1''}\<rparr>,
                     task = Some (Suc 0)\<rparr>),
             (''1'', \<lparr>identity = ''1'',
                     snap = example_snapshot\<lparr>locked_datasets := {}, locked_iterators := {}\<rparr>,
                     task = None\<rparr>)],
          worker_queue = [''1''],
          db = \<lparr>published = example_snapshot, last_task_id = Suc 0, live_tasks = [Suc 0],
                 collected = []\<rparr>,
          backend_in = [], frontend_in = [],
          backend_out = [Frame ''0'', Frame [], Frame ''c1'', Frame [], Frame ''reindex ds1'',
                         Frame ''0'', Frame [], LockRespFrame LockOk,
                         Frame ''0'', Frame [], LockRespFrame LockDenied],
          frontend_out = []\<rparr>"
  by (simp add: repeated_lock_events_def first_lock_events_def run_simps)

lemma stale_lock_state:
  "\<exists>d. exec example_ce example_dec stale_lock_events (initial 2 example_db) =
     Inr \<lparr>wctxs =
            [(''0'', \<lparr>identity = ''0'',
                     snap = example_snapshot\<lparr>locked_iterators := {},
                                              locked_datasets := {[], ''ds1''}\<rparr>,
                     task = None\<rparr>),
             (''1'', \<lparr>identity = ''1'',
                     snap = example_snapshot\<lparr>locked_iterators := {},
                                              locked_datasets := {[], ''ds1''}\<rparr>,
                     task = Some (Suc (Suc 0))\<rparr>)],
          worker_queue = [''0''],
          db = d,
          backend_in = [], frontend_in = [],
          backend_out = [Frame ''0'', Frame [], Frame ''c1'', Frame [], Frame ''reindex ds1'',
                         Frame ''0'', Frame [], LockRespFrame LockOk,
                         Frame ''1'', Frame [], Frame ''c2'', Frame [], Frame ''reindex ds1'',
                         Frame ''1'', Frame [], LockRespFrame LockOk],
          frontend_out = [''c1'', [], ''ok'']\<rparr>"
  by (simp add: stale_lock_events_def first_lock_events_def run_simps)

subsection \<open>C1 and C10 on concrete requests\<close>

text \<open>
  C1 as stated fails. Worker 0 holds the lock on \<open>ds1\<close>, worker 1 has no task, and worker
  0 asks for \<open>ds1\<close> again: the reply is \<open>LockDenied\<close>, although no worker other than the
  requester has a task at all.
\<close>

theorem dataset_lock_decision_counterexample:
  "\<exists>s0 s1. exec example_ce example_dec first_lock_events (initial 2 example_db) = Inr s0
     \<and> exec example_ce example_dec repeated_lock_events (initial 2 example_db) = Inr s1
     \<and> backend_out s1 = backend_out s0 @ [Frame ''0'', Frame [], LockRespFrame LockDenied]
     \<and> \<not> (\<exists>(b, w) \<in> set (wctxs s0). b \<noteq> ''0'' \<and> task w \<noteq> None)"
  by (simp add: first_lock_state repeated_lock_state)

theorem dataset_lock_decision_witness:
  "handle_dataset_lock_req ''0'' ''0'' (example_service {''ds1'', []} [[], ''ds1'', [], []])
     = Inr ((example_service {''ds1'', []} [[], ''ds1'', [], []])
             \<lparr>backend_in := [],
               backend_out := [Frame ''0'', Frame [], LockRespFrame LockDenied]\<rparr>)
   \<and> handle_dataset_lock_req ''0'' ''0'' (example_service {''ds1''} [[], ''ds1'', [], []])
     = Inr ((example_service {''ds1''} [[], ''ds1'', [], []])
             \<lparr>backend_in := [],
               backend_out := [Frame ''0'', Frame [], LockRespFrame LockDenied]\<rparr>)
   \<and> (\<exists>s' w'. handle_dataset_lock_req ''0'' ''0'' (example_service {} [[], ''ds1'', [], []])
                  = Inr s'
         \<and> backend_out s' = [Frame ''0'', Frame [], LockRespFrame LockOk]
         \<and> map_of (wctxs s') ''0'' = Some w' \<and> ''ds1'' \<in> locked_datasets (snap w'))"
proof -
  have req: "\<forall>n \<in> set [''ds1'']. n \<noteq> []" by simp
  have fr: "backend_in (example_service held [[], ''ds1'', [], []])
              = concat (map (\<lambda>n. [[], n]) ([''ds1''] @ [[]])) @ []" for held
    by (simp add: example_service_def)
  have conflict: "\<exists>(b, w) \<in> set (wctxs (example_service held [[], ''ds1'', [], []])).
      task w \<noteq> None \<and> (\<exists>n \<in> set [''ds1'']. n \<in> locked_datasets (snap w))"
    if "''ds1'' \<in> held" for held
    using that by (simp add: example_service_def)
  have none: "\<forall>(b, w) \<in> set (wctxs (example_service held [[], ''ds1'', [], []])).
      task w \<noteq> None \<longrightarrow> [] \<notin> locked_datasets (snap w)"
    if "[] \<notin> held" for held
    using that by (simp add: example_service_def db_snapshot_def)
  have free: "\<not> (\<exists>(b, w) \<in> set (wctxs (example_service {} [[], ''ds1'', [], []])).
      task w \<noteq> None \<and> (\<exists>n \<in> set [''ds1'']. n \<in> locked_datasets (snap w)))"
    by (simp add: example_service_def db_snapshot_def)
  have held_both: "''ds1'' \<in> {''ds1'', []}" by simp
  have held_one: "''ds1'' \<in> {''ds1''}" by simp
  have denied_both:
    "handle_dataset_lock_req ''0'' ''0'' (example_service {''ds1'', []} [[], ''ds1'', [], []])
     = Inr ((example_service {''ds1'', []} [[], ''ds1'', [], []])
             \<lparr>backend_in := [],
               backend_out := [Frame ''0'', Frame [], LockRespFrame LockDenied]\<rparr>)"
    using dataset_lock_decision[OF req fr, of "{''ds1'', []}" "''0''" "''0''",
        THEN conjunct1, THEN mp, OF conflict[OF held_both]]
    by (simp add: example_service_def)
  have "[] \<notin> {''ds1''}" by simp
  from dataset_lock_decision[OF req fr, of "{''ds1''}" "''0''" "''0''",
        THEN conjunct2, THEN mp, OF none[OF this]] conflict[OF held_one]
  have denied_one:
    "handle_dataset_lock_req ''0'' ''0'' (example_service {''ds1''} [[], ''ds1'', [], []])
     = Inr ((example_service {''ds1''} [[], ''ds1'', [], []])
             \<lparr>backend_in := [],
               backend_out := [Frame ''0'', Frame [], LockRespFrame LockDenied]\<rparr>)"
    by (simp add: example_service_def)
  have "[] \<notin> ({} :: string set)" by simp
  from dataset_lock_decision[OF req fr, of "{}" "''0''" "''0''",
        THEN conjunct2, THEN mp, OF none[OF this]] free
  have granted: "\<exists>s' w'.
      handle_dataset_lock_req ''0'' ''0'' (example_service {} [[], ''ds1'', [], []]) = Inr s'
      \<and> backend_out s' = [Frame ''0'', Frame [], LockRespFrame LockOk]
      \<and> map_of (wctxs s') ''0'' = Some w' \<and> ''ds1'' \<in> locked_datasets (snap w')"
    by (auto simp: example_service_def update_wctx_def)
  from denied_both denied_one granted show ?thesis by blast
qed

theorem lock_request_records_empty_name_witness:
  "\<exists>s' w'. handle_dataset_lock_req ''0'' ''0'' (example_service {} [[], ''ds1'', [], []]) = Inr s'
     \<and> map_of (wctxs s') ''0'' = Some w'
     \<and> locked_datasets (snap w') = {''ds1'', []}"
proof -
  let ?s = "example_service {} [[], ''ds1'', [], []]"
  let ?w = "\<lparr>identity = ''0'', snap = db_snapshot example_db, task = Some 1\<rparr>"
  have "\<exists>s'. handle_dataset_lock_req ''0'' ''0'' ?s = Inr s'
          \<and> last (backend_out s') = LockRespFrame LockOk"
    by (simp add: handle_dataset_lock_req_def example_service_def expect_zero_size_def
          dataset_already_locked_def is_dataset_locked_def db_snapshot_def s_send_backend_def)
  then obtain s' where h: "handle_dataset_lock_req ''0'' ''0'' ?s = Inr s'"
    and ok: "last (backend_out s') = LockRespFrame LockOk" by blast
  have w: "map_of (wctxs ?s) ''0'' = Some ?w" by (simp add: example_service_def)
  from lock_request_records_empty_name[OF h] obtain requested unread where
    r: "recv_ds_names [] (backend_in ?s) = Inr (requested @ [[]], unread)" and
    l: "last (backend_out s') = LockRespFrame LockOk \<longrightarrow>
          (\<forall>w. map_of (wctxs ?s) ''0'' = Some w \<longrightarrow>
             (\<exists>w'. map_of (wctxs s') ''0'' = Some w'
                \<and> locked_datasets (snap w') = locked_datasets (snap w) \<union> set requested \<union> {[]}
                \<and> [] \<in> locked_datasets (snap w')))"
    by blast
  from r have "requested = [''ds1'']"
    by (simp add: example_service_def expect_zero_size_def)
  with l ok w obtain w' where "map_of (wctxs s') ''0'' = Some w'"
    "locked_datasets (snap w') = locked_datasets (snap ?w) \<union> set [''ds1''] \<union> {[]}"
    by blast
  then have "map_of (wctxs s') ''0'' = Some w' \<and> locked_datasets (snap w') = {''ds1'', []}"
    by (auto simp: db_snapshot_def)
  with h show ?thesis by blast
qed

theorem response_event_witness:
  "\<exists>s'. poll_backend example_ce example_dec
           (example_service {} [''0'', [], ''Response'', [], ''c1'', [], ''pong'']) = Inr s'
     \<and> frontend_out s' = [''c1'', [], ''pong'']
     \<and> map_of (wctxs s') ''0'' = Some \<lparr>identity = ''0'', snap = db_snapshot example_db, task = None\<rparr>
     \<and> worker_queue s' = [''0'']
     \<and> live_tasks (db s') = [2]
     \<and> collected (db s') = [{''1''}]"
proof -
  let ?s = "example_service {} [''0'', [], ''Response'', [], ''c1'', [], ''pong'']"
  let ?w = "\<lparr>identity = ''0'', snap = db_snapshot example_db, task = Some 1\<rparr>"
  have a: "backend_in ?s = ''0'' # [] # ''Response'' # [] # ''c1'' # [] # ''pong'' # []"
    by (simp add: example_service_def)
  have b: "example_dec ''Response'' = Some Response" by (simp add: example_dec_def)
  have c: "map_of (wctxs ?s) ''0'' = Some ?w" by (simp add: example_service_def)
  have d: "task ?w = Some 1" by simp
  from response_event[where s = "?s" and worker_addr = "''0''" and resp_type = "''Response''"
      and client_addr = "''c1''" and reply = "''pong''" and unread = "[]" and dec = example_dec
      and w = "?w" and did_task = 1 and ce = example_ce, OF a b c d]
  obtain s' where
    r: "poll_backend example_ce example_dec ?s = Inr s'"
       "frontend_out s' = frontend_out ?s @ [''c1'', [], ''pong'']"
       "map_of (wctxs s') ''0'' = Some (?w\<lparr>task := None\<rparr>)"
       "worker_queue s' = worker_queue ?s @ [''0'']"
       "db s' = db_collect_garbage (working_snapshots (wctxs s'))
                  (db_commit_task example_ce 1 (db ?s))"
       "working_snapshots (wctxs s') = working_snapshots (wctxs ?s) - {''0''}"
    by blast
  have ws: "working_snapshots (wctxs ?s) - {''0''} = {''1''}"
    by (auto simp: working_snapshots_iff example_service_def)
  from r(5) r(6) ws have "live_tasks (db s') = [2] \<and> collected (db s') = [{''1''}]"
    by (simp add: db_collect_garbage_def db_commit_task_def example_service_def example_db_def)
  with r(1-4) show ?thesis by (simp add: example_service_def)
qed

subsection \<open>What each handler changes\<close>

lemma handle_dataset_lock_req_effect:
  assumes "handle_dataset_lock_req a worker_addr s = Inr s'"
  shows "worker_queue s' = worker_queue s \<and> db s' = db s \<and> frontend_in s' = frontend_in s
     \<and> (wctxs s' = wctxs s
        \<or> (\<exists>ds_names. \<not> dataset_already_locked (wctxs s) ds_names
             \<and> wctxs s' = update_wctx a
                 (\<lambda>w. w\<lparr>snap := (snap w)\<lparr>locked_datasets :=
                               locked_datasets (snap w) \<union> set ds_names\<rparr>\<rparr>) (wctxs s)))"
proof -
  from assms obtain ds_names unread where
    r: "recv_ds_names [] (backend_in s) = Inr (ds_names, unread)"
    by (auto simp: handle_dataset_lock_req_def split: sum.splits)
  note h = handle_dataset_lock_req_collected[OF r, of a worker_addr]
  show ?thesis
  proof (cases "dataset_already_locked (wctxs s) ds_names")
    case True
    with h assms have "s' = s\<lparr>backend_in := unread,
        backend_out := backend_out s @ [Frame worker_addr, Frame [], LockRespFrame LockDenied]\<rparr>"
      by (simp add: dataset_already_locked_iff)
    then show ?thesis by simp
  next
    case False
    with h assms have "s' = s\<lparr>backend_in := unread,
        backend_out := backend_out s @ [Frame worker_addr, Frame [], LockRespFrame LockOk],
        wctxs := update_wctx a
          (\<lambda>w. w\<lparr>snap := (snap w)\<lparr>locked_datasets :=
                        locked_datasets (snap w) \<union> set ds_names\<rparr>\<rparr>) (wctxs s)\<rparr>"
      by (simp add: dataset_already_locked_iff)
    with False show ?thesis by auto
  qed
qed

lemma handle_iterator_lock_req_frames:
  "backend_in s = [] # iterator_name # [] # unread \<Longrightarrow>
   handle_iterator_lock_req a worker_addr s =
     Inr (if iterator_already_locked (wctxs s) iterator_name
          then s\<lparr>backend_in := unread,
                 backend_out := backend_out s @ [Frame worker_addr, Frame [], LockRespFrame LockDenied]\<rparr>
          else s\<lparr>backend_in := unread,
                 backend_out := backend_out s @ [Frame worker_addr, Frame [], LockRespFrame LockOk],
                 wctxs := update_wctx a
                   (\<lambda>w. w\<lparr>snap := (snap w)\<lparr>locked_iterators :=
                                 insert iterator_name (locked_iterators (snap w))\<rparr>\<rparr>) (wctxs s)\<rparr>)"
  by (simp add: handle_iterator_lock_req_def and_then_def s_recv_backend_def
        expect_zero_size_def s_send_backend_def lock_iterator_def Let_def)

lemma handle_iterator_lock_req_Inr_frames:
  "handle_iterator_lock_req a worker_addr s = Inr s' \<Longrightarrow>
   \<exists>iterator_name unread. backend_in s = [] # iterator_name # [] # unread"
  by (auto simp: handle_iterator_lock_req_def and_then_def s_recv_backend_def
        expect_zero_size_def split: list.splits if_splits)

lemma handle_iterator_lock_req_effect:
  assumes "handle_iterator_lock_req a worker_addr s = Inr s'"
  shows "worker_queue s' = worker_queue s \<and> db s' = db s \<and> frontend_in s' = frontend_in s
     \<and> (wctxs s' = wctxs s
        \<or> (\<exists>iterator_name. \<not> iterator_already_locked (wctxs s) iterator_name
             \<and> wctxs s' = update_wctx a
                 (\<lambda>w. w\<lparr>snap := (snap w)\<lparr>locked_iterators :=
                               insert iterator_name (locked_iterators (snap w))\<rparr>\<rparr>) (wctxs s)))"
proof -
  from handle_iterator_lock_req_Inr_frames[OF assms] obtain iterator_name unread where
    fr: "backend_in s = [] # iterator_name # [] # unread" by blast
  note h = handle_iterator_lock_req_frames[OF fr, of a worker_addr]
  show ?thesis
  proof (cases "iterator_already_locked (wctxs s) iterator_name")
    case True
    with h assms have "s' = s\<lparr>backend_in := unread,
        backend_out := backend_out s @ [Frame worker_addr, Frame [], LockRespFrame LockDenied]\<rparr>"
      by simp
    then show ?thesis by simp
  next
    case False
    with h assms have "s' = s\<lparr>backend_in := unread,
        backend_out := backend_out s @ [Frame worker_addr, Frame [], LockRespFrame LockOk],
        wctxs := update_wctx a
          (\<lambda>w. w\<lparr>snap := (snap w)\<lparr>locked_iterators :=
                        insert iterator_name (locked_iterators (snap w))\<rparr>\<rparr>) (wctxs s)\<rparr>"
      by simp
    with False show ?thesis by auto
  qed
qed

lemma handle_response_frames:
  "backend_in s = [] # client_addr # [] # reply # unread \<Longrightarrow>
   handle_response ce a s =
     (case map_of (wctxs s) a of
        None \<Rightarrow> Inl Undefined_behaviour
      | Some w \<Rightarrow>
          (case task w of
             None \<Rightarrow> Inl Undefined_behaviour
           | Some did_task \<Rightarrow>
               Inr (s\<lparr>backend_in := unread,
                      frontend_out := frontend_out s @ [client_addr, [], reply],
                      wctxs := update_wctx a (\<lambda>w. w\<lparr>task := None\<rparr>) (wctxs s),
                      db := db_collect_garbage
                        (working_snapshots (update_wctx a (\<lambda>w. w\<lparr>task := None\<rparr>) (wctxs s)))
                        (db_commit_task ce did_task (db s))\<rparr>)))"
  by (simp add: handle_response_def and_then_def s_recv_backend_def expect_zero_size_def
        s_send_frontend_def commit_task_def split: option.splits)

lemma handle_response_Inr_frames:
  "handle_response ce a s = Inr s' \<Longrightarrow>
   \<exists>client_addr reply unread. backend_in s = [] # client_addr # [] # reply # unread"
  by (auto simp: handle_response_def and_then_def s_recv_backend_def
        expect_zero_size_def split: list.splits if_splits)

lemma handle_response_effect:
  assumes "handle_response ce a s = Inr s'"
  shows "\<exists>w t. map_of (wctxs s) a = Some w \<and> task w = Some t
     \<and> wctxs s' = update_wctx a (\<lambda>w. w\<lparr>task := None\<rparr>) (wctxs s)
     \<and> worker_queue s' = worker_queue s \<and> frontend_in s' = frontend_in s
     \<and> live_tasks (db s') = remove1 t (live_tasks (db s))
     \<and> last_task_id (db s') = last_task_id (db s)"
proof -
  from handle_response_Inr_frames[OF assms] obtain client_addr reply unread where
    fr: "backend_in s = [] # client_addr # [] # reply # unread" by blast
  from assms handle_response_frames[OF fr, of ce a] show ?thesis
    by (auto simp: db_commit_task_def db_collect_garbage_def split: option.splits)
qed

lemma poll_frontend_frames:
  "frontend_in s = client_addr # [] # req # unread \<Longrightarrow>
   poll_frontend s =
     (case worker_queue s of
        [] \<Rightarrow> Inl Undefined_behaviour
      | worker_addr # queue_rest \<Rightarrow>
          (case map_of (wctxs s) worker_addr of
             None \<Rightarrow> Inl (Exception (Other_exn ''std::out_of_range''))
           | Some _ \<Rightarrow>
               Inr (s\<lparr>frontend_in := unread,
                      worker_queue := queue_rest,
                      db := (db s)\<lparr>last_task_id := last_task_id (db s) + 1,
                                    live_tasks := live_tasks (db s) @ [last_task_id (db s) + 1]\<rparr>,
                      wctxs := update_wctx worker_addr
                        (\<lambda>w. w\<lparr>task := Some (last_task_id (db s) + 1),
                                snap := db_snapshot
                                  ((db s)\<lparr>last_task_id := last_task_id (db s) + 1,
                                           live_tasks := live_tasks (db s)
                                             @ [last_task_id (db s) + 1]\<rparr>)\<rparr>) (wctxs s),
                      backend_out := backend_out s
                        @ [Frame worker_addr, Frame [], Frame client_addr, Frame [], Frame req]\<rparr>)))"
  by (simp add: poll_frontend_def and_then_def s_recv_frontend_def expect_zero_size_def
        s_send_backend_def db_allocate_task_def Let_def split: list.splits option.splits)

lemma poll_frontend_Inr_frames:
  "poll_frontend s = Inr s' \<Longrightarrow>
   \<exists>client_addr req unread. frontend_in s = client_addr # [] # req # unread"
  by (auto simp: poll_frontend_def and_then_def s_recv_frontend_def
        expect_zero_size_def split: list.splits if_splits)

lemma poll_frontend_effect:
  assumes "poll_frontend s = Inr s'"
  shows "\<exists>a queue_rest. worker_queue s = a # queue_rest \<and> worker_queue s' = queue_rest
     \<and> frontend_in s \<noteq> []
     \<and> live_tasks (db s') = live_tasks (db s) @ [last_task_id (db s) + 1]
     \<and> last_task_id (db s') = last_task_id (db s) + 1
     \<and> wctxs s' = update_wctx a
          (\<lambda>w. w\<lparr>task := Some (last_task_id (db s) + 1), snap := db_snapshot (db s')\<rparr>) (wctxs s)"
proof -
  from poll_frontend_Inr_frames[OF assms] obtain client_addr req unread where
    fr: "frontend_in s = client_addr # [] # req # unread" by blast
  from assms poll_frontend_frames[OF fr] fr show ?thesis
    by (auto split: list.splits option.splits)
qed

lemma poll_backend_frames:
  "backend_in s = worker_addr # z # resp_type # unread \<Longrightarrow>
   poll_backend ce dec s =
     (case map_of (wctxs s) worker_addr of
        None \<Rightarrow> Inl (Exception (Other_exn ''std::out_of_range''))
      | Some _ \<Rightarrow>
          if z \<noteq> [] then Inl (Exception (Runtime_error ''Expected zero-size frame''))
          else (case dec resp_type of
              Some DatasetLockReq \<Rightarrow>
                handle_dataset_lock_req worker_addr worker_addr (s\<lparr>backend_in := unread\<rparr>)
            | Some IteratorLockReq \<Rightarrow>
                handle_iterator_lock_req worker_addr worker_addr (s\<lparr>backend_in := unread\<rparr>)
            | Some Response \<Rightarrow>
                handle_response ce worker_addr
                  (s\<lparr>backend_in := unread, worker_queue := worker_queue s @ [worker_addr]\<rparr>)
            | Some Ready \<Rightarrow>
                Inr (s\<lparr>backend_in := unread, worker_queue := worker_queue s @ [worker_addr]\<rparr>)
            | None \<Rightarrow> Inr (s\<lparr>backend_in := unread\<rparr>)))"
  by (simp add: poll_backend_def and_then_def s_recv_backend_def expect_zero_size_def
      split: option.splits NetAction.splits)

lemma poll_backend_Inr_frames:
  "poll_backend ce dec s = Inr s' \<Longrightarrow>
   \<exists>worker_addr resp_type unread. backend_in s = worker_addr # [] # resp_type # unread
      \<and> map_of (wctxs s) worker_addr \<noteq> None"
  by (auto simp: poll_backend_def and_then_def s_recv_backend_def
        expect_zero_size_def split: list.splits if_splits option.splits)

text \<open>The five ways in which \<open>poll_backend\<close> returns.\<close>

lemma poll_backend_effect:
  assumes "poll_backend ce dec s = Inr s'"
  shows "frontend_in s' = frontend_in s \<and>
    ((\<not> handles_ready dec s \<and> worker_queue s' = worker_queue s \<and> db s' = db s
        \<and> (wctxs s' = wctxs s
           \<or> (\<exists>a ds_names. \<not> dataset_already_locked (wctxs s) ds_names
                \<and> wctxs s' = update_wctx a
                    (\<lambda>w. w\<lparr>snap := (snap w)\<lparr>locked_datasets :=
                                  locked_datasets (snap w) \<union> set ds_names\<rparr>\<rparr>) (wctxs s))
           \<or> (\<exists>a iterator_name. \<not> iterator_already_locked (wctxs s) iterator_name
                \<and> wctxs s' = update_wctx a
                    (\<lambda>w. w\<lparr>snap := (snap w)\<lparr>locked_iterators :=
                                  insert iterator_name (locked_iterators (snap w))\<rparr>\<rparr>) (wctxs s))))
     \<or> (handles_ready dec s \<and> wctxs s' = wctxs s \<and> db s' = db s
          \<and> (\<exists>a. worker_queue s' = worker_queue s @ [a]))
     \<or> (\<not> handles_ready dec s
          \<and> (\<exists>a w t. map_of (wctxs s) a = Some w \<and> task w = Some t
               \<and> wctxs s' = update_wctx a (\<lambda>w. w\<lparr>task := None\<rparr>) (wctxs s)
               \<and> worker_queue s' = worker_queue s @ [a]
               \<and> live_tasks (db s') = remove1 t (live_tasks (db s))
               \<and> last_task_id (db s') = last_task_id (db s))))"
proof -
  from poll_backend_Inr_frames[OF assms] obtain worker_addr resp_type rest where
    fr: "backend_in s = worker_addr # [] # resp_type # rest" and
    known: "map_of (wctxs s) worker_addr \<noteq> None"
    by blast
  from assms poll_backend_frames[OF fr, of ce dec] known have
    body: "(case dec resp_type of
              Some DatasetLockReq \<Rightarrow>
                handle_dataset_lock_req worker_addr worker_addr (s\<lparr>backend_in := rest\<rparr>)
            | Some IteratorLockReq \<Rightarrow>
                handle_iterator_lock_req worker_addr worker_addr (s\<lparr>backend_in := rest\<rparr>)
            | Some Response \<Rightarrow>
                handle_response ce worker_addr
                  (s\<lparr>backend_in := rest, worker_queue := worker_queue s @ [worker_addr]\<rparr>)
            | Some Ready \<Rightarrow>
                Inr (s\<lparr>backend_in := rest, worker_queue := worker_queue s @ [worker_addr]\<rparr>)
            | None \<Rightarrow> Inr (s\<lparr>backend_in := rest\<rparr>)) = Inr s'"
    by (auto split: option.splits)
  have hr: "handles_ready dec s \<longleftrightarrow> dec resp_type = Some Ready"
    using fr known by (simp add: handles_ready_def)
  show ?thesis
  proof (cases "dec resp_type")
    case None
    with body hr show ?thesis by auto
  next
    case (Some act)
    show ?thesis
    proof (cases act)
      case Ready
      with Some body hr show ?thesis by auto
    next
      case Response
      with Some body have "handle_response ce worker_addr
          (s\<lparr>backend_in := rest, worker_queue := worker_queue s @ [worker_addr]\<rparr>) = Inr s'"
        by simp
      from handle_response_effect[OF this] Some Response hr show ?thesis by auto
    next
      case DatasetLockReq
      with Some body have "handle_dataset_lock_req worker_addr worker_addr
          (s\<lparr>backend_in := rest\<rparr>) = Inr s'"
        by simp
      from handle_dataset_lock_req_effect[OF this] Some DatasetLockReq hr show ?thesis
        by auto
    next
      case IteratorLockReq
      with Some body have "handle_iterator_lock_req worker_addr worker_addr
          (s\<lparr>backend_in := rest\<rparr>) = Inr s'"
        by simp
      from handle_iterator_lock_req_effect[OF this] Some IteratorLockReq hr show ?thesis
        by auto
    qed
  qed
qed

subsection \<open>Mutual exclusion among the workers at work\<close>

lemma busy_exclusiveI:
  assumes "\<And>a wa b wb. (a, wa) \<in> set ws \<Longrightarrow> (b, wb) \<in> set ws \<Longrightarrow> a \<noteq> b \<Longrightarrow>
      task wa \<noteq> None \<Longrightarrow> task wb \<noteq> None \<Longrightarrow>
      locked_datasets (snap wa) \<inter> locked_datasets (snap wb) = {}
      \<and> locked_iterators (snap wa) \<inter> locked_iterators (snap wb) = {}"
  shows "busy_exclusive ws"
  unfolding busy_exclusive_def using assms by blast

lemma busy_exclusiveD:
  assumes "busy_exclusive ws" "(a, wa) \<in> set ws" "(b, wb) \<in> set ws" "a \<noteq> b"
    "task wa \<noteq> None" "task wb \<noteq> None"
  shows "locked_datasets (snap wa) \<inter> locked_datasets (snap wb) = {}"
    and "locked_iterators (snap wa) \<inter> locked_iterators (snap wb) = {}"
  using assms unfolding busy_exclusive_def by blast+

lemma in_update_wctx:
  "(k, w') \<in> set (update_wctx a f ws) \<longleftrightarrow>
     (\<exists>w. (k, w) \<in> set ws \<and> w' = (if k = a then f w else w))"
proof
  assume "(k, w') \<in> set (update_wctx a f ws)"
  then obtain k0 w where m: "(k0, w) \<in> set ws"
    and e: "(k, w') = (if k0 = a then (k0, f w) else (k0, w))"
    by (auto simp: set_update_wctx)
  from e have "k0 = k" "w' = (if k = a then f w else w)"
    by (auto split: if_splits)
  with m show "\<exists>w. (k, w) \<in> set ws \<and> w' = (if k = a then f w else w)" by blast
next
  assume "\<exists>w. (k, w) \<in> set ws \<and> w' = (if k = a then f w else w)"
  then obtain w where m: "(k, w) \<in> set ws" and e: "w' = (if k = a then f w else w)"
    by blast
  from m have "(\<lambda>(k, w). if k = a then (k, f w) else (k, w)) (k, w)
      \<in> set (update_wctx a f ws)"
    unfolding set_update_wctx by (rule imageI)
  with e show "(k, w') \<in> set (update_wctx a f ws)" by (simp split: if_splits)
qed

lemma busy_exclusive_lock_datasets:
  assumes "busy_exclusive ws" and "\<not> dataset_already_locked ws ds_names"
  shows "busy_exclusive (update_wctx a
           (\<lambda>w. w\<lparr>snap := (snap w)\<lparr>locked_datasets :=
                         locked_datasets (snap w) \<union> set ds_names\<rparr>\<rparr>) ws)"
proof (rule busy_exclusiveI)
  have free: "locked_datasets (snap w) \<inter> set ds_names = {}"
    if "(b, w) \<in> set ws" "task w \<noteq> None" for b w
    using assms(2) that unfolding dataset_already_locked_iff by blast
  let ?f = "\<lambda>w. w\<lparr>snap := (snap w)\<lparr>locked_datasets :=
                         locked_datasets (snap w) \<union> set ds_names\<rparr>\<rparr>"
  fix x wx' y wy'
  assume "(x, wx') \<in> set (update_wctx a ?f ws)" "(y, wy') \<in> set (update_wctx a ?f ws)"
    and ne: "x \<noteq> y" and busy': "task wx' \<noteq> None" "task wy' \<noteq> None"
  then obtain wx wy where
    x: "(x, wx) \<in> set ws" "wx' = (if x = a then ?f wx else wx)" and
    y: "(y, wy) \<in> set ws" "wy' = (if y = a then ?f wy else wy)"
    unfolding in_update_wctx by blast
  from busy' x(2) y(2) have busy: "task wx \<noteq> None" "task wy \<noteq> None"
    by (auto split: if_splits)
  note d = busy_exclusiveD[OF assms(1) x(1) y(1) ne busy]
  from d(2) x(2) y(2)
  have i: "locked_iterators (snap wx') \<inter> locked_iterators (snap wy') = {}"
    by (auto split: if_splits)
  from d(1) x(2) y(2) ne free[OF x(1) busy(1)] free[OF y(1) busy(2)]
  have "locked_datasets (snap wx') \<inter> locked_datasets (snap wy') = {}"
    by (auto split: if_splits)
  with i show "locked_datasets (snap wx') \<inter> locked_datasets (snap wy') = {}
      \<and> locked_iterators (snap wx') \<inter> locked_iterators (snap wy') = {}" by simp
qed

lemma busy_exclusive_lock_iterator:
  assumes "busy_exclusive ws" and "\<not> iterator_already_locked ws iterator_name"
  shows "busy_exclusive (update_wctx a
           (\<lambda>w. w\<lparr>snap := (snap w)\<lparr>locked_iterators :=
                         insert iterator_name (locked_iterators (snap w))\<rparr>\<rparr>) ws)"
proof (rule busy_exclusiveI)
  have free: "iterator_name \<notin> locked_iterators (snap w)"
    if "(b, w) \<in> set ws" "task w \<noteq> None" for b w
    using assms(2) that unfolding iterator_already_locked_iff by blast
  let ?f = "\<lambda>w. w\<lparr>snap := (snap w)\<lparr>locked_iterators :=
                         insert iterator_name (locked_iterators (snap w))\<rparr>\<rparr>"
  fix x wx' y wy'
  assume "(x, wx') \<in> set (update_wctx a ?f ws)" "(y, wy') \<in> set (update_wctx a ?f ws)"
    and ne: "x \<noteq> y" and busy': "task wx' \<noteq> None" "task wy' \<noteq> None"
  then obtain wx wy where
    x: "(x, wx) \<in> set ws" "wx' = (if x = a then ?f wx else wx)" and
    y: "(y, wy) \<in> set ws" "wy' = (if y = a then ?f wy else wy)"
    unfolding in_update_wctx by blast
  from busy' x(2) y(2) have busy: "task wx \<noteq> None" "task wy \<noteq> None"
    by (auto split: if_splits)
  note d = busy_exclusiveD[OF assms(1) x(1) y(1) ne busy]
  from d(1) x(2) y(2)
  have i: "locked_datasets (snap wx') \<inter> locked_datasets (snap wy') = {}"
    by (auto split: if_splits)
  from d(2) x(2) y(2) ne free[OF x(1) busy(1)] free[OF y(1) busy(2)]
  have "locked_iterators (snap wx') \<inter> locked_iterators (snap wy') = {}"
    by (auto split: if_splits)
  with i show "locked_datasets (snap wx') \<inter> locked_datasets (snap wy') = {}
      \<and> locked_iterators (snap wx') \<inter> locked_iterators (snap wy') = {}" by simp
qed

lemma busy_exclusive_task_None:
  assumes "busy_exclusive ws"
  shows "busy_exclusive (update_wctx a (\<lambda>w. w\<lparr>task := None\<rparr>) ws)"
proof (rule busy_exclusiveI)
  let ?f = "\<lambda>w. w\<lparr>task := None\<rparr>"
  fix x wx' y wy'
  assume "(x, wx') \<in> set (update_wctx a ?f ws)" "(y, wy') \<in> set (update_wctx a ?f ws)"
    and ne: "x \<noteq> y" and busy': "task wx' \<noteq> None" "task wy' \<noteq> None"
  then obtain wx wy where
    x: "(x, wx) \<in> set ws" "wx' = (if x = a then ?f wx else wx)" and
    y: "(y, wy) \<in> set ws" "wy' = (if y = a then ?f wy else wy)"
    unfolding in_update_wctx by blast
  from busy' x(2) y(2) have same: "wx' = wx" "wy' = wy"
    by (auto split: if_splits)
  from busy_exclusiveD[OF assms x(1) y(1) ne] busy' same
  show "locked_datasets (snap wx') \<inter> locked_datasets (snap wy') = {}
      \<and> locked_iterators (snap wx') \<inter> locked_iterators (snap wy') = {}"
    by simp
qed

lemma busy_exclusive_fresh:
  assumes "busy_exclusive ws" and "locked_datasets sn = {}" and "locked_iterators sn = {}"
  shows "busy_exclusive (update_wctx a (\<lambda>w. w\<lparr>task := Some t, snap := sn\<rparr>) ws)"
proof (rule busy_exclusiveI)
  let ?f = "\<lambda>w. w\<lparr>task := Some t, snap := sn\<rparr>"
  fix x wx' y wy'
  assume "(x, wx') \<in> set (update_wctx a ?f ws)" "(y, wy') \<in> set (update_wctx a ?f ws)"
    and ne: "x \<noteq> y" and busy': "task wx' \<noteq> None" "task wy' \<noteq> None"
  then obtain wx wy where
    x: "(x, wx) \<in> set ws" "wx' = (if x = a then ?f wx else wx)" and
    y: "(y, wy) \<in> set ws" "wy' = (if y = a then ?f wy else wy)"
    unfolding in_update_wctx by blast
  show "locked_datasets (snap wx') \<inter> locked_datasets (snap wy') = {}
      \<and> locked_iterators (snap wx') \<inter> locked_iterators (snap wy') = {}"
  proof (cases "x = a \<or> y = a")
    case True
    with x(2) y(2) assms(2,3) show ?thesis by auto
  next
    case False
    with x(2) y(2) busy' have "wx' = wx" "wy' = wy" "task wx \<noteq> None" "task wy \<noteq> None"
      by auto
    with busy_exclusiveD[OF assms(1) x(1) y(1) ne] show ?thesis by simp
  qed
qed

lemma db_snapshot_no_locks:
  "locked_datasets (db_snapshot d) = {}" "locked_iterators (db_snapshot d) = {}"
  by (simp_all add: db_snapshot_def)

lemma poll_backend_exclusive:
  assumes "poll_backend ce dec s = Inr s'" and "busy_exclusive (wctxs s)"
  shows "busy_exclusive (wctxs s')"
  using poll_backend_effect[OF assms(1)] assms(2)
  by (auto intro: busy_exclusive_lock_datasets busy_exclusive_lock_iterator
        busy_exclusive_task_None)

lemma poll_frontend_exclusive:
  assumes "poll_frontend s = Inr s'" and "busy_exclusive (wctxs s)"
  shows "busy_exclusive (wctxs s')"
proof -
  from poll_frontend_effect[OF assms(1)] obtain a where
    "wctxs s' = update_wctx a
       (\<lambda>w. w\<lparr>task := Some (last_task_id (db s) + 1), snap := db_snapshot (db s')\<rparr>) (wctxs s)"
    by blast
  with busy_exclusive_fresh[OF assms(2) db_snapshot_no_locks] show ?thesis by simp
qed

lemma poll_backend_keys:
  "poll_backend ce dec s = Inr s' \<Longrightarrow> map fst (wctxs s') = map fst (wctxs s)"
  using poll_backend_effect[of ce dec s s'] by (auto simp: map_fst_update_wctx)

lemma poll_frontend_keys:
  "poll_frontend s = Inr s' \<Longrightarrow> map fst (wctxs s') = map fst (wctxs s)"
  using poll_frontend_effect[of s s'] by (auto simp: map_fst_update_wctx)

lemma run_iteration_Inr:
  assumes "run_iteration ce dec s = Inr s'"
  shows "\<exists>s1. (s1 = s \<or> poll_backend ce dec s = Inr s1)
              \<and> (s' = s1 \<or> (worker_queue s \<noteq> [] \<and> poll_frontend s1 = Inr s'))"
  using assms
  by (auto simp: run_iteration_def zmq_poll_def and_then_eq_Inr Let_def
      split: option.splits if_splits)

lemma step_exclusive:
  assumes "step ce dec ev s = Inr s'"
    and "distinct (map fst (wctxs s)) \<and> busy_exclusive (wctxs s)"
  shows "distinct (map fst (wctxs s')) \<and> busy_exclusive (wctxs s')"
proof (cases ev)
  case (Backend_arrives frames)
  with assms show ?thesis by (auto simp: step_def)
next
  case (Frontend_arrives frames)
  with assms show ?thesis by (auto simp: step_def)
next
  case Iteration
  with assms(1) have "run_iteration ce dec s = Inr s'" by (simp add: step_def)
  from run_iteration_Inr[OF this] obtain s1 where
    b: "s1 = s \<or> poll_backend ce dec s = Inr s1" and
    f: "s' = s1 \<or> (worker_queue s \<noteq> [] \<and> poll_frontend s1 = Inr s')"
    by blast
  from b assms(2) have 1: "distinct (map fst (wctxs s1)) \<and> busy_exclusive (wctxs s1)"
    by (auto simp: poll_backend_keys intro: poll_backend_exclusive)
  from f 1 show ?thesis
    by (auto simp: poll_frontend_keys intro: poll_frontend_exclusive)
qed

lemma exec_invariant:
  assumes "\<And>ev s s'. step ce dec ev s = Inr s' \<Longrightarrow> P s \<Longrightarrow> P s'"
    and "exec ce dec evs s = Inr s'" and "P s"
  shows "P s'"
  using assms(2,3)
proof (induction evs arbitrary: s)
  case Nil
  then show ?case by simp
next
  case (Cons ev evs)
  from Cons.prems(1) obtain s1 where
    1: "step ce dec ev s = Inr s1" and 2: "exec ce dec evs s1 = Inr s'"
    by (auto simp: and_then_eq_Inr)
  from assms(1)[OF 1 Cons.prems(2)] have "P s1" .
  with Cons.IH[OF 2] show ?case .
qed

lemma store_wctx_keys:
  "distinct (map fst ws) \<Longrightarrow> distinct (map fst (store_wctx a w ws))"
  by (auto simp: store_wctx_def map_fst_update_wctx)

lemma store_wctx_tasks:
  "\<forall>(b, w') \<in> set ws. task w' = None \<Longrightarrow> task w = None \<Longrightarrow>
   \<forall>(b, w') \<in> set (store_wctx a w ws). task w' = None"
  by (auto simp: store_wctx_def set_update_wctx split: if_splits)

lemma initial_wctxs:
  "distinct (map fst (wctxs (initial NUM_WORKERS db0)))
   \<and> (\<forall>(b, w) \<in> set (wctxs (initial NUM_WORKERS db0)). task w = None)"
proof -
  have "distinct (map fst (foldl (\<lambda>ws worker_no. store_wctx (f worker_no)
            \<lparr>identity = f worker_no, snap = sn, task = None\<rparr> ws) ws0 ns))
        \<and> (\<forall>(b, w) \<in> set (foldl (\<lambda>ws worker_no. store_wctx (f worker_no)
            \<lparr>identity = f worker_no, snap = sn, task = None\<rparr> ws) ws0 ns). task w = None)"
    if "distinct (map fst ws0)" "\<forall>(b, w) \<in> set ws0. task w = None"
    for f :: "nat \<Rightarrow> string" and sn :: "'a DatabaseSnapshot" and ws0 ns
    using that
  proof (induction ns arbitrary: ws0)
    case Nil
    then show ?case by simp
  next
    case (Cons n ns)
    let ?w = "\<lparr>identity = f n, snap = sn, task = None\<rparr>"
    have "distinct (map fst (store_wctx (f n) ?w ws0))"
      using Cons.prems(1) by (rule store_wctx_keys)
    moreover have "\<forall>(b, w') \<in> set (store_wctx (f n) ?w ws0). task w' = None"
      using Cons.prems(2) by (rule store_wctx_tasks) simp
    ultimately show ?case using Cons.IH by simp
  qed
  from this[of "[]"] show ?thesis by (simp add: initial_def)
qed

lemma initial_exclusive: "busy_exclusive (wctxs (initial NUM_WORKERS db0))"
proof (rule busy_exclusiveI)
  fix a wa b wb
  assume "(a, wa) \<in> set (wctxs (initial NUM_WORKERS db0))" and "task wa \<noteq> None"
    and "(b, wb) \<in> set (wctxs (initial NUM_WORKERS db0))"
  with initial_wctxs[of NUM_WORKERS db0] have False by auto
  then show "locked_datasets (snap wa) \<inter> locked_datasets (snap wb) = {}
      \<and> locked_iterators (snap wa) \<inter> locked_iterators (snap wb) = {}" ..
qed

text \<open>
  C2 as the code has it. In every state that the loop reaches from its start, whatever
  frames arrive, the worker contexts have pairwise different identities, and the snapshots
  of two different worker contexts whose tasks are both non-null hold no common dataset
  lock and no common iterator lock. (The snapshot of a worker whose task is null keeps
  its locks until the next dispatch to that worker replaces it; such a snapshot is not
  looked at when a lock is granted.)
\<close>

theorem busy_snapshots_exclusive:
  assumes "exec ce dec evs (initial NUM_WORKERS db0) = Inr s"
  shows "distinct (map fst (wctxs s))
     \<and> (\<forall>(a, wa) \<in> set (wctxs s). \<forall>(b, wb) \<in> set (wctxs s).
          a \<noteq> b \<and> task wa \<noteq> None \<and> task wb \<noteq> None \<longrightarrow>
            locked_datasets (snap wa) \<inter> locked_datasets (snap wb) = {}
            \<and> locked_iterators (snap wa) \<inter> locked_iterators (snap wb) = {})"
proof -
  have "distinct (map fst (wctxs s)) \<and> busy_exclusive (wctxs s)"
    using assms
  proof (rule exec_invariant[rotated])
    show "distinct (map fst (wctxs (initial NUM_WORKERS db0)))
        \<and> busy_exclusive (wctxs (initial NUM_WORKERS db0))"
      using initial_wctxs[of NUM_WORKERS db0] initial_exclusive[of NUM_WORKERS db0] by blast
  next
    fix ev and s s' :: "'a NetworkService"
    assume "step ce dec ev s = Inr s'"
      and "distinct (map fst (wctxs s)) \<and> busy_exclusive (wctxs s)"
    then show "distinct (map fst (wctxs s')) \<and> busy_exclusive (wctxs s')"
      by (rule step_exclusive)
  qed
  then show ?thesis unfolding busy_exclusive_def by simp
qed

subsection \<open>Admission control\<close>

lemma run_iteration_polls:
  assumes "run_iteration ce dec s = Inr s'"
  shows "\<exists>s1. (if backend_in s \<noteq> [] then poll_backend ce dec s = Inr s1 else s1 = s)
     \<and> (if worker_queue s \<noteq> [] \<and> frontend_in s \<noteq> [] then poll_frontend s1 = Inr s'
         else s' = s1)"
  using assms
  by (auto simp: run_iteration_def zmq_poll_def and_then_eq_Inr Let_def
      split: option.splits if_splits)

lemma run_iteration_empty_queue:
  assumes "worker_queue s = []"
  shows "run_iteration ce dec s = (if backend_in s \<noteq> [] then poll_backend ce dec s else Inl Blocked)"
  using assms
  by (cases "poll_backend ce dec s") (simp_all add: run_iteration_def zmq_poll_def and_then_def)

lemma frontend_unread:
  assumes "worker_queue s = []" and "run_iteration ce dec s = Inr s'"
  shows "frontend_in s' = frontend_in s"
proof -
  from assms have "poll_backend ce dec s = Inr s'"
    by (simp add: run_iteration_empty_queue split: if_splits)
  from poll_backend_effect[OF this] show ?thesis by blast
qed

lemma tasks_registered_cong:
  assumes "wctxs s' = wctxs s" and "live_tasks (db s') = live_tasks (db s)"
    and "last_task_id (db s') = last_task_id (db s)"
  shows "tasks_registered s' = tasks_registered s"
  unfolding tasks_registered_def assms ..

lemma tasks_registered_same_tasks:
  assumes "tasks_registered s"
    and "wctxs s' = update_wctx a f (wctxs s)" and "\<And>w. task (f w) = task w"
    and "db s' = db s"
  shows "tasks_registered s'"
proof -
  from assms(1) have
    k1: "distinct (map fst (wctxs s))" and
    k2: "distinct (live_tasks (db s))" and
    k3: "\<forall>t \<in> set (live_tasks (db s)). t \<le> last_task_id (db s)" and
    k4: "\<And>b w t. (b, w) \<in> set (wctxs s) \<Longrightarrow> task w = Some t \<Longrightarrow> t \<in> set (live_tasks (db s))" and
    k5: "\<And>b w c w'. (b, w) \<in> set (wctxs s) \<Longrightarrow> (c, w') \<in> set (wctxs s) \<Longrightarrow> b \<noteq> c \<Longrightarrow>
           task w \<noteq> None \<Longrightarrow> task w \<noteq> task w'"
    unfolding tasks_registered_def by blast+
  have old: "\<exists>w0. (b, w0) \<in> set (wctxs s) \<and> task w0 = task w'"
    if "(b, w') \<in> set (wctxs s')" for b w'
  proof -
    from that obtain w0 where "(b, w0) \<in> set (wctxs s)" "w' = (if b = a then f w0 else w0)"
      unfolding assms(2) in_update_wctx by blast
    with assms(3) show ?thesis by (cases "b = a") auto
  qed
  have n4: "\<forall>(b, w') \<in> set (wctxs s'). \<forall>u. task w' = Some u \<longrightarrow> u \<in> set (live_tasks (db s'))"
  proof (clarify)
    fix b w' u
    assume "(b, w') \<in> set (wctxs s')" and u: "task w' = Some u"
    from old[OF this(1)] obtain w0 where "(b, w0) \<in> set (wctxs s)" "task w0 = task w'"
      by blast
    with k4[of b w0 u] u show "u \<in> set (live_tasks (db s'))" unfolding assms(4) by simp
  qed
  have n5: "\<forall>(b, w1) \<in> set (wctxs s'). \<forall>(c, w2) \<in> set (wctxs s').
      b \<noteq> c \<and> task w1 \<noteq> None \<longrightarrow> task w1 \<noteq> task w2"
  proof (clarify)
    fix b w1 c w2 u
    assume m: "(b, w1) \<in> set (wctxs s')" "(c, w2) \<in> set (wctxs s')" and ne: "b \<noteq> c"
      and u: "task w1 = Some u" and eq: "task w1 = task w2"
    from old[OF m(1)] old[OF m(2)] obtain v1 v2 where
      v: "(b, v1) \<in> set (wctxs s)" "task v1 = task w1"
         "(c, v2) \<in> set (wctxs s)" "task v2 = task w2"
      by blast
    from k5[OF v(1) v(3) ne] v(2,4) u eq show False by simp
  qed
  from k1 k2 k3 n4 n5 show ?thesis
    unfolding tasks_registered_def assms(2,4) by (simp add: map_fst_update_wctx)
qed

lemma tasks_registered_commit:
  assumes "tasks_registered s"
    and "map_of (wctxs s) a = Some w" and "task w = Some t"
    and "wctxs s' = update_wctx a (\<lambda>w. w\<lparr>task := None\<rparr>) (wctxs s)"
    and "live_tasks (db s') = remove1 t (live_tasks (db s))"
    and "last_task_id (db s') = last_task_id (db s)"
  shows "tasks_registered s' \<and> Suc (length (live_tasks (db s'))) = length (live_tasks (db s))"
proof -
  from assms(1) have
    k1: "distinct (map fst (wctxs s))" and
    k2: "distinct (live_tasks (db s))" and
    k3: "\<forall>t \<in> set (live_tasks (db s)). t \<le> last_task_id (db s)" and
    k4: "\<And>b w t. (b, w) \<in> set (wctxs s) \<Longrightarrow> task w = Some t \<Longrightarrow> t \<in> set (live_tasks (db s))" and
    k5: "\<And>b w c w'. (b, w) \<in> set (wctxs s) \<Longrightarrow> (c, w') \<in> set (wctxs s) \<Longrightarrow> b \<noteq> c \<Longrightarrow>
           task w \<noteq> None \<Longrightarrow> task w \<noteq> task w'"
    unfolding tasks_registered_def by blast+
  from assms(2) have aw: "(a, w) \<in> set (wctxs s)" by (rule map_of_SomeD)
  from k4[OF aw assms(3)] have tin: "t \<in> set (live_tasks (db s))" .
  have live: "set (live_tasks (db s')) = set (live_tasks (db s)) - {t}"
    unfolding assms(5) using k2 by simp
  have len: "Suc (length (live_tasks (db s'))) = length (live_tasks (db s))"
    unfolding assms(5) using tin by (simp add: length_remove1) (cases "live_tasks (db s)"; simp)
  have n4: "\<forall>(b, w') \<in> set (wctxs s'). \<forall>u. task w' = Some u \<longrightarrow> u \<in> set (live_tasks (db s'))"
  proof (clarify)
    fix b w' u
    assume "(b, w') \<in> set (wctxs s')" and u: "task w' = Some u"
    then obtain w0 where m: "(b, w0) \<in> set (wctxs s)"
      and e: "w' = (if b = a then w0\<lparr>task := None\<rparr> else w0)"
      unfolding assms(4) in_update_wctx by blast
    from e u have ne: "b \<noteq> a" and same: "w' = w0" by (auto split: if_splits)
    from k5[OF m aw ne] u same assms(3) have "u \<noteq> t" by auto
    with k4[OF m] u same live show "u \<in> set (live_tasks (db s'))" by simp
  qed
  have n5: "\<forall>(b, w1) \<in> set (wctxs s'). \<forall>(c, w2) \<in> set (wctxs s').
      b \<noteq> c \<and> task w1 \<noteq> None \<longrightarrow> task w1 \<noteq> task w2"
  proof (clarify)
    fix b w1 c w2 u
    assume "(b, w1) \<in> set (wctxs s')" "(c, w2) \<in> set (wctxs s')" and ne: "b \<noteq> c"
      and u: "task w1 = Some u" and eq: "task w1 = task w2"
    then obtain v1 v2 where m: "(b, v1) \<in> set (wctxs s)" "(c, v2) \<in> set (wctxs s)"
      and e: "w1 = (if b = a then v1\<lparr>task := None\<rparr> else v1)"
             "w2 = (if c = a then v2\<lparr>task := None\<rparr> else v2)"
      unfolding assms(4) in_update_wctx by blast
    from e u eq have v: "task v1 = Some u" "task v2 = Some u" by (auto split: if_splits)
    from k5[OF m ne] v show False by simp
  qed
  from k1 k2 k3 n4 n5 live have "tasks_registered s'"
    unfolding tasks_registered_def assms(4,6)
    by (simp add: map_fst_update_wctx assms(5))
  with len show ?thesis by simp
qed

lemma tasks_registered_dispatch:
  assumes "tasks_registered s"
    and "live_tasks (db s') = live_tasks (db s) @ [last_task_id (db s) + 1]"
    and "last_task_id (db s') = last_task_id (db s) + 1"
    and "wctxs s' = update_wctx a
          (\<lambda>w. w\<lparr>task := Some (last_task_id (db s) + 1), snap := sn\<rparr>) (wctxs s)"
  shows "tasks_registered s'"
proof -
  from assms(1) have
    k1: "distinct (map fst (wctxs s))" and
    k2: "distinct (live_tasks (db s))" and
    k3: "\<And>t. t \<in> set (live_tasks (db s)) \<Longrightarrow> t \<le> last_task_id (db s)" and
    k4: "\<And>b w t. (b, w) \<in> set (wctxs s) \<Longrightarrow> task w = Some t \<Longrightarrow> t \<in> set (live_tasks (db s))" and
    k5: "\<And>b w c w'. (b, w) \<in> set (wctxs s) \<Longrightarrow> (c, w') \<in> set (wctxs s) \<Longrightarrow> b \<noteq> c \<Longrightarrow>
           task w \<noteq> None \<Longrightarrow> task w \<noteq> task w'"
    unfolding tasks_registered_def by blast+
  let ?new = "last_task_id (db s) + 1"
  have fresh: "?new \<notin> set (live_tasks (db s))" using k3 by fastforce
  have n2: "distinct (live_tasks (db s'))" unfolding assms(2) using k2 fresh by simp
  have n3: "\<forall>t \<in> set (live_tasks (db s')). t \<le> last_task_id (db s')"
    unfolding assms(2,3) using k3 by fastforce
  have old: "u \<in> set (live_tasks (db s)) \<and> u \<noteq> ?new"
    if "(b, w0) \<in> set (wctxs s)" "task w0 = Some u" for b w0 u
    using k4[OF that] fresh by blast
  have n4: "\<forall>(b, w') \<in> set (wctxs s'). \<forall>u. task w' = Some u \<longrightarrow> u \<in> set (live_tasks (db s'))"
  proof (clarify)
    fix b w' u
    assume "(b, w') \<in> set (wctxs s')" and u: "task w' = Some u"
    then obtain w0 where m: "(b, w0) \<in> set (wctxs s)"
      and e: "w' = (if b = a then w0\<lparr>task := Some ?new, snap := sn\<rparr> else w0)"
      unfolding assms(4) in_update_wctx by blast
    show "u \<in> set (live_tasks (db s'))"
    proof (cases "b = a")
      case True
      with e u show ?thesis unfolding assms(2) by simp
    next
      case False
      with e u old[OF m] show ?thesis unfolding assms(2) by simp
    qed
  qed
  have n5: "\<forall>(b, w1) \<in> set (wctxs s'). \<forall>(c, w2) \<in> set (wctxs s').
      b \<noteq> c \<and> task w1 \<noteq> None \<longrightarrow> task w1 \<noteq> task w2"
  proof (clarify)
    fix b w1 c w2 u
    assume "(b, w1) \<in> set (wctxs s')" "(c, w2) \<in> set (wctxs s')" and ne: "b \<noteq> c"
      and u: "task w1 = Some u" and eq: "task w1 = task w2"
    then obtain v1 v2 where m: "(b, v1) \<in> set (wctxs s)" "(c, v2) \<in> set (wctxs s)"
      and e: "w1 = (if b = a then v1\<lparr>task := Some ?new, snap := sn\<rparr> else v1)"
             "w2 = (if c = a then v2\<lparr>task := Some ?new, snap := sn\<rparr> else v2)"
      unfolding assms(4) in_update_wctx by blast
    show False
    proof (cases "b = a")
      case True
      with ne e u eq have "task v2 = Some ?new" by simp
      with old[OF m(2)] show False by blast
    next
      case b: False
      show False
      proof (cases "c = a")
        case True
        with b e u eq have "task v1 = Some ?new" by simp
        with old[OF m(1)] show False by blast
      next
        case False
        with b e u eq have v: "task v1 = Some u" "task v2 = Some u" by simp_all
        from k5[OF m ne] v show False by simp
      qed
    qed
  qed
  from k1 n2 n3 n4 n5 show ?thesis
    unfolding tasks_registered_def assms(4) by (simp add: map_fst_update_wctx)
qed

lemma poll_backend_accounting:
  assumes "poll_backend ce dec s = Inr s'" and "tasks_registered s"
  shows "tasks_registered s'
     \<and> length (live_tasks (db s')) + length (worker_queue s')
         = length (live_tasks (db s)) + length (worker_queue s)
           + (if handles_ready dec s then 1 else 0)"
    (is ?C)
proof -
  have same: ?C
    if "\<not> handles_ready dec s" "worker_queue s' = worker_queue s" "db s' = db s"
      "wctxs s' = wctxs s"
    using that assms(2) tasks_registered_cong[of s' s] by simp
  have locks: ?C
    if "\<not> handles_ready dec s" "worker_queue s' = worker_queue s" "db s' = db s"
      "wctxs s' = update_wctx a f (wctxs s)" "\<And>w. task (f w) = task w" for a f
    using tasks_registered_same_tasks[OF assms(2) that(4,5,3)] that(1,2,3) by simp
  have ready: ?C
    if "handles_ready dec s" "wctxs s' = wctxs s" "db s' = db s"
      "worker_queue s' = worker_queue s @ [a]" for a
    using that assms(2) tasks_registered_cong[of s' s] by simp
  have response: ?C
    if "\<not> handles_ready dec s" "map_of (wctxs s) a = Some w"
      "task w = Some t" "wctxs s' = update_wctx a (\<lambda>w. w\<lparr>task := None\<rparr>) (wctxs s)"
      "worker_queue s' = worker_queue s @ [a]"
      "live_tasks (db s') = remove1 t (live_tasks (db s))"
      "last_task_id (db s') = last_task_id (db s)" for a w t
  proof -
    from tasks_registered_commit[OF assms(2) that(2,3,4,6,7)] have
      "tasks_registered s'" "Suc (length (live_tasks (db s'))) = length (live_tasks (db s))"
      by blast+
    with that(1,5) show ?thesis by simp
  qed
  have ds: ?C
    if "\<not> handles_ready dec s" "worker_queue s' = worker_queue s" "db s' = db s"
      "wctxs s' = update_wctx a
         (\<lambda>w. w\<lparr>snap := (snap w)\<lparr>locked_datasets :=
                       locked_datasets (snap w) \<union> set ds_names\<rparr>\<rparr>) (wctxs s)"
    for a ds_names
    using that by (intro locks[OF that(1,2,3,4)]) simp
  have it: ?C
    if "\<not> handles_ready dec s" "worker_queue s' = worker_queue s" "db s' = db s"
      "wctxs s' = update_wctx a
         (\<lambda>w. w\<lparr>snap := (snap w)\<lparr>locked_iterators :=
                       insert iterator_name (locked_iterators (snap w))\<rparr>\<rparr>) (wctxs s)"
    for a iterator_name
    using that by (intro locks[OF that(1,2,3,4)]) simp
  from poll_backend_effect[OF assms(1)] same ds it ready response show ?C by blast
qed

lemma poll_frontend_accounting:
  assumes "poll_frontend s = Inr s'" and "tasks_registered s"
  shows "tasks_registered s'
     \<and> length (live_tasks (db s')) + length (worker_queue s')
         = length (live_tasks (db s)) + length (worker_queue s)"
proof -
  from poll_frontend_effect[OF assms(1)] obtain a queue_rest where
    e: "worker_queue s = a # queue_rest" "worker_queue s' = queue_rest"
       "live_tasks (db s') = live_tasks (db s) @ [last_task_id (db s) + 1]"
       "last_task_id (db s') = last_task_id (db s) + 1"
       "wctxs s' = update_wctx a
          (\<lambda>w. w\<lparr>task := Some (last_task_id (db s) + 1), snap := db_snapshot (db s')\<rparr>) (wctxs s)"
    by blast
  from tasks_registered_dispatch[OF assms(2) e(3,4,5)] e(1,2,3) show ?thesis by simp
qed

lemma initial_registered:
  assumes "live_tasks db0 = []"
  shows "tasks_registered (initial NUM_WORKERS db0)"
proof -
  from initial_wctxs[of NUM_WORKERS db0] have
    d: "distinct (map fst (wctxs (initial NUM_WORKERS db0)))" and
    n: "\<And>b w. (b, w) \<in> set (wctxs (initial NUM_WORKERS db0)) \<Longrightarrow> task w = None"
    by blast+
  have l: "live_tasks (db (initial NUM_WORKERS db0)) = []"
    using assms by (simp add: initial_def)
  from n have "\<forall>(a, w) \<in> set (wctxs (initial NUM_WORKERS db0)).
      \<forall>t. task w = Some t \<longrightarrow> t \<in> set (live_tasks (db (initial NUM_WORKERS db0)))"
    by fastforce
  moreover from n have "\<forall>(a, w) \<in> set (wctxs (initial NUM_WORKERS db0)).
      \<forall>(b, w') \<in> set (wctxs (initial NUM_WORKERS db0)).
        a \<noteq> b \<and> task w \<noteq> None \<longrightarrow> task w \<noteq> task w'"
    by fastforce
  ultimately show ?thesis unfolding tasks_registered_def using d l by simp
qed

subsection \<open>The threads and the sockets\<close>

lemma to_string_not_empty: "to_string n \<noteq> []"
  by (subst to_string.simps) simp

lemma to_string_inj: "inj to_string"
  by (rule inj_on_inverseI[of _ from_decimal]) (rule from_decimal_to_string)

lemma store_wctx_identities:
  "set (map fst (store_wctx a w ws)) = insert a (set (map fst ws))"
proof (cases "a \<in> set (map fst ws)")
  case True
  then have "map fst (store_wctx a w ws) = map fst ws"
    by (simp only: store_wctx_def if_True map_fst_update_wctx)
  with True show ?thesis by (simp only: insert_absorb)
next
  case False
  then have "store_wctx a w ws = ws @ [(a, w)]" by (simp only: store_wctx_def if_False)
  then show ?thesis by simp
qed

lemma initial_identities: "[] \<notin> set (map fst (wctxs (initial NUM_WORKERS db0)))"
proof -
  have "[] \<notin> set (map fst (foldl (\<lambda>ws worker_no.
            store_wctx (to_string worker_no) (g worker_no) ws) ws0 ns))"
    if "[] \<notin> set (map fst ws0)"
    for g :: "nat \<Rightarrow> 'a WorkerContext" and ws0 ns
    using that
  proof (induction ns arbitrary: ws0)
    case Nil
    then show ?case by simp
  next
    case (Cons n ns)
    have "[] \<notin> set (map fst (store_wctx (to_string n) (g n) ws0))"
      unfolding store_wctx_identities using Cons.prems to_string_not_empty[of n] by auto
    from Cons.IH[OF this] show ?case by simp
  qed
  from this[of "[]" "\<lambda>worker_no. \<lparr>identity = to_string worker_no,
      snap = db_snapshot db0, task = None\<rparr>" "[0..<NUM_WORKERS]"]
  show ?thesis by (simp add: initial_def)
qed

lemma map_fst_update_thread: "map fst (update_thread a f ts) = map fst ts"
  by (induction ts) (auto simp: update_thread_def)

lemma update_thread_Cons:
  "update_thread a f ((k, t) # ts) = (if k = a then (k, f t) else (k, t)) # update_thread a f ts"
  by (simp add: update_thread_def)

lemma started_Cons:
  "started ((k, t) # ts) = (if pc t \<noteq> Starting then 1 else 0) + started ts"
  by (simp add: started_def)

lemma started_update_thread_same:
  "(\<And>t. pc (f t) = pc t) \<Longrightarrow> started (update_thread a f ts) = started ts"
proof (induction ts)
  case Nil
  show ?case by (simp add: update_thread_def)
next
  case (Cons p ts)
  obtain k u where p: "p = (k, u)" by (cases p)
  from Cons show ?case unfolding p update_thread_Cons by (simp add: started_Cons)
qed

lemma started_update_thread_other:
  "a \<notin> set (map fst ts) \<Longrightarrow> started (update_thread a f ts) = started ts"
proof (induction ts)
  case Nil
  show ?case by (simp add: update_thread_def)
next
  case (Cons p ts)
  obtain k u where p: "p = (k, u)" by (cases p)
  from Cons.prems p have "k \<noteq> a" "a \<notin> set (map fst ts)" by auto
  with Cons.IH show ?case unfolding p update_thread_Cons by (simp add: started_Cons)
qed

lemma started_update_thread:
  assumes "distinct (map fst ts)" and "map_of ts a = Some t"
  shows "started (update_thread a (\<lambda>_. t') ts) + (if pc t \<noteq> Starting then 1 else 0)
           = started ts + (if pc t' \<noteq> Starting then 1 else 0)"
  using assms
proof (induction ts)
  case Nil
  then show ?case by simp
next
  case (Cons p ts)
  obtain k u where p: "p = (k, u)" by (cases p)
  show ?case
  proof (cases "k = a")
    case True
    with Cons.prems p have "u = t" and "a \<notin> set (map fst ts)" by auto
    from started_update_thread_other[OF this(2), of "\<lambda>_. t'"] True \<open>u = t\<close>
    show ?thesis unfolding p update_thread_Cons by (simp add: started_Cons)
  next
    case False
    with Cons.prems p have "distinct (map fst ts)" "map_of ts a = Some t" by auto
    from Cons.IH[OF this] False show ?thesis
      unfolding p update_thread_Cons by (simp add: started_Cons)
  qed
qed

lemma route_threads:
  "map fst (route frames ts) = map fst ts \<and> started (route frames ts) = started ts"
  by (induction frames ts rule: route.induct)
     (simp_all add: map_fst_update_thread started_update_thread_same)

lemma lock_request_frames_Nil: "lock_request_frames [] = [[], []]"
  by (simp add: lock_request_frames_def)

lemma lock_request_frames_Cons:
  "lock_request_frames (n # names) = [] # n # lock_request_frames names"
  by (simp add: lock_request_frames_def)

lemma lock_request_frames_hd:
  "lock_request_frames names \<noteq> [] \<and> hd (lock_request_frames names) = []"
  by (cases names) (simp_all add: lock_request_frames_Nil lock_request_frames_Cons)

text \<open>The frames of a name list up to its first empty name are the frames of a name list;
  the frames after them start with a zero-size frame.\<close>

lemma lock_request_frames_split:
  "\<exists>pre tail. (\<forall>n \<in> set pre. n \<noteq> [])
     \<and> lock_request_frames names = lock_request_frames pre @ tail
     \<and> (tail = [] \<or> hd tail = [])"
proof (induction names)
  case Nil
  show ?case by (intro exI[of _ "[]"]) simp
next
  case (Cons n names)
  show ?case
  proof (cases "n = []")
    case True
    have "lock_request_frames (n # names) = lock_request_frames [] @ lock_request_frames names"
      using True by (simp add: lock_request_frames_Nil lock_request_frames_Cons)
    with lock_request_frames_hd[of names] show ?thesis
      by (intro exI[of _ "[]"] exI[of _ "lock_request_frames names"]) simp
  next
    case False
    from Cons.IH obtain pre tail where
      "\<forall>n \<in> set pre. n \<noteq> []" "lock_request_frames names = lock_request_frames pre @ tail"
      "tail = [] \<or> hd tail = []"
      by blast
    with False show ?thesis
      by (intro exI[of _ "n # pre"] exI[of _ tail]) (simp add: lock_request_frames_Cons)
  qed
qed

text \<open>What a thread sends is nothing, or a whole message, possibly followed by frames
  that start with a zero-size frame; the message is an announcement exactly when the
  thread had not announced itself.\<close>

lemma worker_step_sent:
  assumes "worker_step enc act task_ptr t = Inr (t', sent)"
    and "\<forall>x. dec (enc x) = Some x"
  shows "(sent = [] \<and> pc t \<noteq> Starting \<and> pc t' \<noteq> Starting)
     \<or> (\<exists>m tail. a # [] # sent = m @ tail \<and> thread_message dec m
           \<and> (tail = [] \<or> hd tail = [])
           \<and> pc t' \<noteq> Starting \<and> (announcement dec m \<longleftrightarrow> pc t = Starting))"
proof (cases act)
  case Announce
  with assms(1) have "pc t = Starting" "sent = [enc Ready]" "pc t' = Receiving"
    by (auto split: worker_pc.splits)
  with assms(2) show ?thesis
    by (intro disjI2 exI[of _ "[a, [], enc Ready]"] exI[of _ "[]"])
       (simp add: thread_message_def announcement_def)
next
  case Take_request
  with assms(1) show ?thesis
    by (auto split: worker_pc.splits list.splits frame_out.splits if_splits)
next
  case (Ask_dataset_lock names)
  with assms(1) obtain address where
    s: "pc t = Executing address" "sent = enc DatasetLockReq # lock_request_frames names"
       "pc t' = Awaiting_lock address"
    by (auto split: worker_pc.splits)
  from lock_request_frames_split[of names] obtain pre tail where
    p: "\<forall>n \<in> set pre. n \<noteq> []" "lock_request_frames names = lock_request_frames pre @ tail"
       "tail = [] \<or> hd tail = []"
    by blast
  let ?m = "a # [] # enc DatasetLockReq # lock_request_frames pre"
  have "thread_message dec ?m"
    unfolding thread_message_def using assms(2) p(1)
    by (intro exI[of _ a] exI[of _ "enc DatasetLockReq"] exI[of _ "lock_request_frames pre"])
       auto
  moreover have "\<not> announcement dec ?m" using assms(2) by (simp add: announcement_def)
  moreover have "a # [] # sent = ?m @ tail" using s(2) p(2) by simp
  ultimately show ?thesis using s p(3) by (intro disjI2 exI[of _ ?m] exI[of _ tail]) simp
next
  case (Ask_iterator_lock iterator_name)
  with assms(1) obtain address where
    s: "pc t = Executing address" "sent = [enc IteratorLockReq, [], iterator_name, []]"
       "pc t' = Awaiting_lock address"
    by (auto split: worker_pc.splits)
  with assms(2) show ?thesis
    by (intro disjI2 exI[of _ "[a, [], enc IteratorLockReq, [], iterator_name, []]"]
          exI[of _ "[]"])
       (simp add: thread_message_def announcement_def)
next
  case Take_lock_reply
  with assms(1) show ?thesis
    by (auto split: worker_pc.splits list.splits frame_out.splits if_splits)
next
  case (Let_through e)
  with assms(1) show ?thesis by (auto split: worker_pc.splits)
next
  case (Answer reply)
  with assms(1) obtain address where
    s: "pc t = Executing address" "sent = [enc Response, [], address, [], reply]"
       "pc t' = Receiving"
    by (auto split: worker_pc.splits)
  with assms(2) show ?thesis
    by (intro disjI2 exI[of _ "[a, [], enc Response, [], address, [], reply]"] exI[of _ "[]"])
       (simp add: thread_message_def announcement_def)
qed

text \<open>An iteration that reads a whole message of a thread reads exactly that message,
  and handles a \<open>Ready\<close> exactly when the message is an announcement.\<close>

lemma poll_backend_message:
  assumes "thread_message dec m" and "backend_in s = m @ unread"
    and "poll_backend ce dec s = Inr s'"
  shows "backend_in s' = unread \<and> (handles_ready dec s \<longleftrightarrow> announcement dec m)"
proof -
  from assms(1) obtain a f rest where m: "m = a # [] # f # rest" and
    k: "case dec f of
           None \<Rightarrow> False
         | Some Ready \<Rightarrow> rest = []
         | Some Response \<Rightarrow> (\<exists>client_addr reply. rest = [[], client_addr, [], reply])
         | Some DatasetLockReq \<Rightarrow>
             (\<exists>names. (\<forall>n \<in> set names. n \<noteq> []) \<and> rest = lock_request_frames names)
         | Some IteratorLockReq \<Rightarrow> (\<exists>iterator_name. rest = [[], iterator_name, []])"
    unfolding thread_message_def by blast
  have fr: "backend_in s = a # [] # f # (rest @ unread)" using assms(2) m by simp
  from assms(3) poll_backend_frames[OF fr, of ce dec] have
    known: "map_of (wctxs s) a \<noteq> None"
    by (auto split: option.splits)
  from assms(3) poll_backend_frames[OF fr, of ce dec] known have
    body: "(case dec f of
              Some DatasetLockReq \<Rightarrow>
                handle_dataset_lock_req a a (s\<lparr>backend_in := rest @ unread\<rparr>)
            | Some IteratorLockReq \<Rightarrow>
                handle_iterator_lock_req a a (s\<lparr>backend_in := rest @ unread\<rparr>)
            | Some Response \<Rightarrow>
                handle_response ce a
                  (s\<lparr>backend_in := rest @ unread, worker_queue := worker_queue s @ [a]\<rparr>)
            | Some Ready \<Rightarrow>
                Inr (s\<lparr>backend_in := rest @ unread, worker_queue := worker_queue s @ [a]\<rparr>)
            | None \<Rightarrow> Inr (s\<lparr>backend_in := rest @ unread\<rparr>)) = Inr s'"
    by (auto split: option.splits)
  have hr: "handles_ready dec s \<longleftrightarrow> dec f = Some Ready"
    using fr known by (simp add: handles_ready_def)
  have an: "announcement dec m \<longleftrightarrow> dec f = Some Ready"
    using m by (simp add: announcement_def)
  have "backend_in s' = unread"
  proof (cases "dec f")
    case None
    with k show ?thesis by simp
  next
    case (Some act)
    show ?thesis
    proof (cases act)
      case Ready
      with Some body k show ?thesis by auto
    next
      case Response
      with Some k obtain client_addr reply where r: "rest = [[], client_addr, [], reply]"
        by auto
      let ?s1 = "s\<lparr>backend_in := rest @ unread, worker_queue := worker_queue s @ [a]\<rparr>"
      have f1: "backend_in ?s1 = [] # client_addr # [] # reply # unread" using r by simp
      from Some Response body have "handle_response ce a ?s1 = Inr s'" by simp
      with handle_response_frames[OF f1, of ce a] show ?thesis
        by (auto split: option.splits)
    next
      case DatasetLockReq
      with Some k obtain names where
        n: "\<forall>n \<in> set names. n \<noteq> []" "rest = lock_request_frames names"
        by auto
      let ?s1 = "s\<lparr>backend_in := rest @ unread\<rparr>"
      have "recv_ds_names [] (backend_in ?s1) = Inr ([] @ names @ [[]], unread)"
        using recv_ds_names_framed[OF n(1), of "[]" unread] n(2)
        by (simp add: lock_request_frames_def)
      from handle_dataset_lock_req_collected[OF this, of a a] Some DatasetLockReq body
      show ?thesis by (auto split: if_splits)
    next
      case IteratorLockReq
      with Some k obtain iterator_name where r: "rest = [[], iterator_name, []]" by auto
      let ?s1 = "s\<lparr>backend_in := rest @ unread\<rparr>"
      have f1: "backend_in ?s1 = [] # iterator_name # [] # unread" using r by simp
      from Some IteratorLockReq body have "handle_iterator_lock_req a a ?s1 = Inr s'" by simp
      with handle_iterator_lock_req_frames[OF f1, of a a] show ?thesis
        by (auto split: if_splits)
    qed
  qed
  with hr an show ?thesis by simp
qed

lemma thread_message_not_empty: "thread_message dec m \<Longrightarrow> m \<noteq> []"
  by (auto simp: thread_message_def)

lemma poll_backend_unknown:
  assumes "backend_in s = tail" and "tail \<noteq> []" and "hd tail = []"
    and "[] \<notin> set (map fst (wctxs s))"
  shows "poll_backend ce dec s = Inl (Exception (Other_exn ''std::out_of_range''))"
proof -
  from assms(2,3) obtain rest where "tail = [] # rest" by (cases tail) auto
  with assms(1) have fr: "backend_in s = [] # rest" by simp
  from assms(4) have "map_of (wctxs s) [] = None" by (simp add: map_of_eq_None_iff)
  with fr show ?thesis
    by (simp add: poll_backend_def and_then_def s_recv_backend_def)
qed

lemma poll_frontend_backend:
  assumes "poll_frontend s = Inr s'"
  shows "backend_in s' = backend_in s"
proof -
  from poll_frontend_Inr_frames[OF assms] obtain client_addr req unread where
    fr: "frontend_in s = client_addr # [] # req # unread" by blast
  from assms poll_frontend_frames[OF fr] show ?thesis
    by (auto split: list.splits option.splits)
qed

subsection \<open>The invariant of the system\<close>

lemma system_invariantI:
  assumes "tasks_registered (service S)" and "distinct (map fst (threads S))"
    and "[] \<notin> set (map fst (wctxs (service S)))"
    and "backend_in (service S) = concat msgs @ tail"
    and "\<forall>m \<in> set msgs. thread_message dec m" and "tail = [] \<or> hd tail = []"
    and "length (live_tasks (db (service S))) + length (worker_queue (service S))
           + length (filter (announcement dec) msgs) \<le> started (threads S)"
  shows "system_invariant dec S"
  unfolding system_invariant_def using assms by blast

lemma worker_does_invariant:
  assumes st: "system_step ce enc dec (Worker_does a act) S = Inr S'"
    and rt: "\<forall>x. dec (enc x) = Some x"
    and inv: "system_invariant dec S"
  shows "system_invariant dec S'"
proof -
  from inv obtain msgs tail where
    reg: "tasks_registered (service S)" and dist: "distinct (map fst (threads S))" and
    ne: "[] \<notin> set (map fst (wctxs (service S)))" and
    b: "backend_in (service S) = concat msgs @ tail" and
    wf: "\<forall>m \<in> set msgs. thread_message dec m" and tl: "tail = [] \<or> hd tail = []" and
    cnt: "length (live_tasks (db (service S))) + length (worker_queue (service S))
           + length (filter (announcement dec) msgs) \<le> started (threads S)"
    unfolding system_invariant_def by blast
  from st obtain t where mt: "map_of (threads S) a = Some t"
    by (cases "map_of (threads S) a") (simp_all add: system_step_def)
  from st mt obtain w where mw: "map_of (wctxs (service S)) a = Some w"
    by (cases "map_of (wctxs (service S)) a") (simp_all add: system_step_def)
  from st mt mw obtain t' sent where
    ws: "worker_step enc act (task w) t = Inr (t', sent)"
    by (cases "worker_step enc act (task w) t") (auto simp: system_step_def and_then_def)
  from st mt mw ws have
    sv: "service S' = (service S)\<lparr>backend_in := backend_in (service S)
           @ (if sent = [] then [] else a # [] # sent)\<rparr>" and
    th: "threads S' = update_thread a (\<lambda>_. t') (threads S)"
    by (auto simp: system_step_def and_then_def step_def)
  note up = started_update_thread[OF dist mt, of t']
  from sv have same: "wctxs (service S') = wctxs (service S)"
    "live_tasks (db (service S')) = live_tasks (db (service S))"
    "last_task_id (db (service S')) = last_task_id (db (service S))"
    "worker_queue (service S') = worker_queue (service S)"
    by simp_all
  from reg tasks_registered_cong[OF same(1,2,3)] have reg': "tasks_registered (service S')"
    by simp
  from dist th have dist': "distinct (map fst (threads S'))"
    by (simp add: map_fst_update_thread)
  from ne same(1) have ne': "[] \<notin> set (map fst (wctxs (service S')))" by simp
  from worker_step_sent[OF ws rt, of a] consider
    (silent) "sent = []" "pc t \<noteq> Starting" "pc t' \<noteq> Starting"
  | (message) m tail' where "a # [] # sent = m @ tail'" "thread_message dec m"
      "tail' = [] \<or> hd tail' = []" "pc t' \<noteq> Starting"
      "announcement dec m \<longleftrightarrow> pc t = Starting"
    by blast
  then show ?thesis
  proof cases
    case silent
    with sv b have b': "backend_in (service S') = concat msgs @ tail" by simp
    from silent up th have "started (threads S') = started (threads S)" by simp
    with cnt same have
      "length (live_tasks (db (service S'))) + length (worker_queue (service S'))
         + length (filter (announcement dec) msgs) \<le> started (threads S')"
      by simp
    from system_invariantI[OF reg' dist' ne' b' wf tl this] show ?thesis .
  next
    case message
    from message(1,2) have "sent \<noteq> []" by (auto simp: thread_message_def)
    with sv message(1) have
      sv': "backend_in (service S') = backend_in (service S) @ m @ tail'"
      by simp
    from message(4,5) up th have
      st': "started (threads S') = started (threads S) + (if announcement dec m then 1 else 0)"
      by (simp split: if_splits)
    show ?thesis
    proof (cases "tail = []")
      case True
      with sv' b have b': "backend_in (service S') = concat (msgs @ [m]) @ tail'" by simp
      from wf message(2) have wf': "\<forall>x \<in> set (msgs @ [m]). thread_message dec x" by simp
      from cnt st' same have
        "length (live_tasks (db (service S'))) + length (worker_queue (service S'))
           + length (filter (announcement dec) (msgs @ [m])) \<le> started (threads S')"
        by simp
      from system_invariantI[OF reg' dist' ne' b' wf' message(3) this] show ?thesis .
    next
      case False
      with sv' b have b': "backend_in (service S') = concat msgs @ (tail @ m @ tail')" by simp
      from False tl have tl': "tail @ m @ tail' = [] \<or> hd (tail @ m @ tail') = []" by simp
      from cnt st' same have
        "length (live_tasks (db (service S'))) + length (worker_queue (service S'))
           + length (filter (announcement dec) msgs) \<le> started (threads S')"
        by simp
      from system_invariantI[OF reg' dist' ne' b' wf tl' this] show ?thesis .
    qed
  qed
qed

lemma client_sends_invariant:
  assumes st: "system_step ce enc dec (Client_sends frames) S = Inr S'"
    and inv: "system_invariant dec S"
  shows "system_invariant dec S'"
proof -
  from st have sv: "service S' = (service S)\<lparr>frontend_in := frontend_in (service S) @ frames\<rparr>"
    and th: "threads S' = threads S"
    by (auto simp: system_step_def and_then_eq_Inr step_def)
  from sv have same: "wctxs (service S') = wctxs (service S)"
    "live_tasks (db (service S')) = live_tasks (db (service S))"
    "last_task_id (db (service S')) = last_task_id (db (service S))"
    "worker_queue (service S') = worker_queue (service S)"
    "backend_in (service S') = backend_in (service S)"
    by simp_all
  from inv tasks_registered_cong[OF same(1,2,3)] show ?thesis
    unfolding system_invariant_def same th by simp
qed

lemma coordinator_iterates_invariant:
  assumes st: "system_step ce enc dec Coordinator_iterates S = Inr S'"
    and inv: "system_invariant dec S"
  shows "system_invariant dec S'"
proof -
  from inv obtain msgs tail where
    reg: "tasks_registered (service S)" and dist: "distinct (map fst (threads S))" and
    ne: "[] \<notin> set (map fst (wctxs (service S)))" and
    b: "backend_in (service S) = concat msgs @ tail" and
    wf: "\<forall>m \<in> set msgs. thread_message dec m" and tl: "tail = [] \<or> hd tail = []" and
    cnt: "length (live_tasks (db (service S))) + length (worker_queue (service S))
           + length (filter (announcement dec) msgs) \<le> started (threads S)"
    unfolding system_invariant_def by blast
  let ?s = "service S"
  from st have it: "run_iteration ce dec ?s = Inr (service S')" and
    th: "threads S' = route (drop (length (backend_out ?s)) (backend_out (service S')))
           (threads S)"
    by (auto simp: system_step_def and_then_eq_Inr step_def)
  from th route_threads[of "drop (length (backend_out ?s)) (backend_out (service S'))"
      "threads S"]
  have th': "map fst (threads S') = map fst (threads S)"
    "started (threads S') = started (threads S)"
    by simp_all
  from run_iteration_polls[OF it] obtain s1 where
    pb: "if backend_in ?s \<noteq> [] then poll_backend ce dec ?s = Inr s1 else s1 = ?s" and
    pf: "if worker_queue ?s \<noteq> [] \<and> frontend_in ?s \<noteq> [] then poll_frontend s1 = Inr (service S')
         else service S' = s1"
    by blast
  have 1: "tasks_registered s1 \<and> [] \<notin> set (map fst (wctxs s1))
      \<and> (\<exists>msgs1. backend_in s1 = concat msgs1 @ tail
            \<and> (\<forall>m \<in> set msgs1. thread_message dec m)
            \<and> length (live_tasks (db s1)) + length (worker_queue s1)
                + length (filter (announcement dec) msgs1) \<le> started (threads S))"
  proof (cases "backend_in ?s \<noteq> []")
    case False
    with pb have "s1 = ?s" by simp
    with reg ne b wf cnt show ?thesis by blast
  next
    case True
    with pb have p: "poll_backend ce dec ?s = Inr s1" by simp
    show ?thesis
    proof (cases msgs)
      case Nil
      with b True have "backend_in ?s = tail" "tail \<noteq> []" by simp_all
      with tl poll_backend_unknown[OF this(1) this(2) _ ne, of ce dec] p show ?thesis by simp
    next
      case (Cons m ms)
      with b have bm: "backend_in ?s = m @ (concat ms @ tail)" by simp
      from wf Cons have wm: "thread_message dec m" and wms: "\<forall>x \<in> set ms. thread_message dec x"
        by simp_all
      from poll_backend_message[OF wm bm p] have
        b1: "backend_in s1 = concat ms @ tail" and
        hr: "handles_ready dec ?s \<longleftrightarrow> announcement dec m"
        by blast+
      from poll_backend_accounting[OF p reg] have
        reg1: "tasks_registered s1" and
        acc: "length (live_tasks (db s1)) + length (worker_queue s1)
                = length (live_tasks (db ?s)) + length (worker_queue ?s)
                  + (if handles_ready dec ?s then 1 else 0)"
        by blast+
      from poll_backend_keys[OF p] ne have ne1: "[] \<notin> set (map fst (wctxs s1))" by simp
      from acc hr cnt Cons have
        "length (live_tasks (db s1)) + length (worker_queue s1)
           + length (filter (announcement dec) ms) \<le> started (threads S)"
        by (simp split: if_splits)
      with reg1 ne1 b1 wms show ?thesis by blast
    qed
  qed
  then obtain msgs1 where
    reg1: "tasks_registered s1" and ne1: "[] \<notin> set (map fst (wctxs s1))" and
    b1: "backend_in s1 = concat msgs1 @ tail" and
    wf1: "\<forall>m \<in> set msgs1. thread_message dec m" and
    cnt1: "length (live_tasks (db s1)) + length (worker_queue s1)
             + length (filter (announcement dec) msgs1) \<le> started (threads S)"
    by blast
  have 2: "tasks_registered (service S') \<and> [] \<notin> set (map fst (wctxs (service S')))
      \<and> backend_in (service S') = backend_in s1
      \<and> length (live_tasks (db (service S'))) + length (worker_queue (service S'))
          = length (live_tasks (db s1)) + length (worker_queue s1)"
  proof (cases "worker_queue ?s \<noteq> [] \<and> frontend_in ?s \<noteq> []")
    case False
    with pf have "service S' = s1" by simp
    with reg1 ne1 show ?thesis by simp
  next
    case True
    with pf have p: "poll_frontend s1 = Inr (service S')" by simp
    from poll_frontend_accounting[OF p reg1] poll_frontend_backend[OF p]
      poll_frontend_keys[OF p] ne1
    show ?thesis by simp
  qed
  from dist th'(1) have dist': "distinct (map fst (threads S'))" by simp
  from 2 b1 have b': "backend_in (service S') = concat msgs1 @ tail" by simp
  from 2 cnt1 th'(2) have
    "length (live_tasks (db (service S'))) + length (worker_queue (service S'))
       + length (filter (announcement dec) msgs1) \<le> started (threads S')"
    by simp
  from system_invariantI[OF _ dist' _ b' wf1 tl this] 2 show ?thesis by blast
qed

lemma system_step_invariant:
  assumes "system_step ce enc dec ev S = Inr S'"
    and "\<forall>x. dec (enc x) = Some x"
    and "system_invariant dec S \<and> length (threads S) = n"
  shows "system_invariant dec S' \<and> length (threads S') = n"
proof -
  have "length (threads S') = length (threads S)"
  proof (cases ev)
    case (Worker_does a act)
    with assms(1) show ?thesis
      by (auto simp: system_step_def and_then_eq_Inr update_thread_def split: option.splits)
  next
    case (Client_sends frames)
    with assms(1) show ?thesis by (auto simp: system_step_def and_then_eq_Inr)
  next
    case Coordinator_iterates
    with assms(1) obtain frames where "threads S' = route frames (threads S)"
      by (auto simp: system_step_def and_then_eq_Inr)
    with route_threads[of frames "threads S"] have "map fst (threads S') = map fst (threads S)"
      by simp
    then have "length (map fst (threads S')) = length (map fst (threads S))" by simp
    then show ?thesis by simp
  qed
  moreover have "system_invariant dec S'"
  proof (cases ev)
    case (Worker_does a act)
    with assms show ?thesis using worker_does_invariant[of ce enc dec a act S S'] by simp
  next
    case (Client_sends frames)
    with assms show ?thesis using client_sends_invariant[of ce enc dec frames S S'] by simp
  next
    case Coordinator_iterates
    with assms show ?thesis using coordinator_iterates_invariant[of ce enc dec S S'] by simp
  qed
  ultimately show ?thesis using assms(3) by simp
qed

lemma system_exec_invariant:
  assumes "system_exec ce enc dec evs S = Inr S'"
    and "\<forall>x. dec (enc x) = Some x"
    and "system_invariant dec S \<and> length (threads S) = n"
  shows "system_invariant dec S' \<and> length (threads S') = n"
  using assms(1,3)
proof (induction evs arbitrary: S)
  case Nil
  then show ?case by simp
next
  case (Cons ev evs)
  from Cons.prems(1) obtain S1 where
    1: "system_step ce enc dec ev S = Inr S1" and 2: "system_exec ce enc dec evs S1 = Inr S'"
    by (auto simp: and_then_eq_Inr)
  from Cons.IH[OF 2 system_step_invariant[OF 1 assms(2) Cons.prems(2)]] show ?case .
qed

lemma system_initial_invariant:
  assumes "live_tasks db0 = []"
  shows "system_invariant dec (system_initial NUM_WORKERS db0)
     \<and> length (threads (system_initial NUM_WORKERS db0)) = NUM_WORKERS"
proof -
  let ?S = "system_initial NUM_WORKERS db0"
  have sv: "service ?S = initial NUM_WORKERS db0" by (simp add: system_initial_def)
  have "map fst (threads ?S) = map to_string [0..<NUM_WORKERS]"
    by (simp add: system_initial_def comp_def)
  moreover have "distinct (map to_string [0..<NUM_WORKERS])"
  proof -
    have "inj_on to_string (set [0..<NUM_WORKERS])"
      using to_string_inj by (rule inj_on_subset) simp
    then show ?thesis by (simp only: distinct_map distinct_upt simp_thms)
  qed
  ultimately have dist: "distinct (map fst (threads ?S))" by simp
  have reg: "tasks_registered (service ?S)" unfolding sv using assms by (rule initial_registered)
  have ne: "[] \<notin> set (map fst (wctxs (service ?S)))" unfolding sv by (rule initial_identities)
  have b: "backend_in (service ?S) = concat [] @ []" unfolding sv by (simp add: initial_def)
  have cnt: "length (live_tasks (db (service ?S))) + length (worker_queue (service ?S))
      + length (filter (announcement dec) []) \<le> started (threads ?S)"
    unfolding sv using assms by (simp add: initial_def)
  have "system_invariant dec ?S"
    by (rule system_invariantI[OF reg dist ne b _ _ cnt]) simp_all
  moreover have "length (threads ?S) = NUM_WORKERS" by (simp add: system_initial_def)
  ultimately show ?thesis by simp
qed

lemma started_le: "started ts \<le> length ts"
  unfolding started_def by (rule length_filter_le)

subsection \<open>The bound on the requests in flight\<close>

text \<open>
  C9. An iteration that starts with an empty queue polls the backend only: it waits while
  the backend has no unread frame, whatever the frontend holds, and when it returns the
  unread frames of the frontend are as they were. In every state that the system reaches
  from its start (no live task), whatever the threads, the clients and the loop do and in
  whatever order, the requests in flight (tasks allocated for a client request and not yet
  committed) and the queued workers together are at most \<open>NUM_WORKERS\<close>; so at most
  \<open>NUM_WORKERS\<close> requests are in flight, and when \<open>NUM_WORKERS\<close> are in flight the queue
  is empty: a further request stays unread on the frontend in every iteration until a
  worker is pushed onto the queue. The value that \<open>s_recv_val\<close> reads from a frame is the
  one that \<open>s_send_val\<close> has put there.
\<close>

theorem admission_control:
  assumes "system_exec ce enc dec evs (system_initial NUM_WORKERS db0) = Inr S"
    and "live_tasks db0 = []"
    and "\<forall>x. dec (enc x) = Some x"
  shows "(worker_queue u = [] \<longrightarrow>
            zmq_poll u (if length (worker_queue u) \<noteq> 0 then 2 else 1)
              = (if backend_in u \<noteq> [] then Some (True, False) else None)
            \<and> (backend_in u = [] \<longrightarrow> run_iteration ce dec u = Inl Blocked)
            \<and> (\<forall>u'. run_iteration ce dec u = Inr u' \<longrightarrow> frontend_in u' = frontend_in u))
     \<and> length (live_tasks (db (service S))) + length (worker_queue (service S)) \<le> NUM_WORKERS
     \<and> length (live_tasks (db (service S))) \<le> NUM_WORKERS
     \<and> (length (live_tasks (db (service S))) = NUM_WORKERS \<longrightarrow>
          worker_queue (service S) = []
          \<and> (\<forall>frames s'.
                run_iteration ce dec
                  ((service S)\<lparr>frontend_in := frontend_in (service S) @ frames\<rparr>) = Inr s'
                \<longrightarrow> frontend_in s' = frontend_in (service S) @ frames))"
proof -
  let ?s = "service S"
  have poll: "worker_queue u = [] \<longrightarrow>
            zmq_poll u (if length (worker_queue u) \<noteq> 0 then 2 else 1)
              = (if backend_in u \<noteq> [] then Some (True, False) else None)
            \<and> (backend_in u = [] \<longrightarrow> run_iteration ce dec u = Inl Blocked)
            \<and> (\<forall>u'. run_iteration ce dec u = Inr u' \<longrightarrow> frontend_in u' = frontend_in u)"
    using frontend_unread[of u ce dec]
    by (auto simp: zmq_poll_def run_iteration_empty_queue)
  from system_exec_invariant[OF assms(1,3) system_initial_invariant[OF assms(2)]] have
    inv: "system_invariant dec S" and n: "length (threads S) = NUM_WORKERS"
    by blast+
  from inv obtain msgs where
    "length (live_tasks (db ?s)) + length (worker_queue ?s)
       + length (filter (announcement dec) msgs) \<le> started (threads S)"
    unfolding system_invariant_def by blast
  with started_le[of "threads S"] n have
    count: "length (live_tasks (db ?s)) + length (worker_queue ?s) \<le> NUM_WORKERS"
    by simp
  then have bound: "length (live_tasks (db ?s)) \<le> NUM_WORKERS" by simp
  have full: "worker_queue ?s = []
      \<and> (\<forall>frames s'.
            run_iteration ce dec (?s\<lparr>frontend_in := frontend_in ?s @ frames\<rparr>) = Inr s'
            \<longrightarrow> frontend_in s' = frontend_in ?s @ frames)"
    if "length (live_tasks (db ?s)) = NUM_WORKERS"
  proof -
    from that count have "length (worker_queue ?s) = 0" by arith
    then have q: "worker_queue ?s = []" by simp
    then have "frontend_in s' = frontend_in ?s @ frames"
      if "run_iteration ce dec (?s\<lparr>frontend_in := frontend_in ?s @ frames\<rparr>) = Inr s'"
      for frames s'
      using frontend_unread[OF _ that] by simp
    with q show ?thesis by blast
  qed
  from poll count bound full show ?thesis by blast
qed

subsection \<open>C2 and C9 on concrete executions\<close>

lemma both_busy_state:
  "exec example_ce example_dec both_busy_events (initial 2 example_db) =
     Inr \<lparr>wctxs =
            [(''0'', \<lparr>identity = ''0'',
                     snap = example_snapshot\<lparr>locked_iterators := {},
                                              locked_datasets := {[], ''ds1''}\<rparr>,
                     task = Some (Suc 0)\<rparr>),
             (''1'', \<lparr>identity = ''1'',
                     snap = example_snapshot\<lparr>locked_datasets := {}, locked_iterators := {}\<rparr>,
                     task = Some (Suc (Suc 0))\<rparr>)],
          worker_queue = [],
          db = \<lparr>published = example_snapshot, last_task_id = Suc (Suc 0),
                 live_tasks = [Suc 0, Suc (Suc 0)], collected = []\<rparr>,
          backend_in = [], frontend_in = [],
          backend_out = [Frame ''0'', Frame [], Frame ''c1'', Frame [], Frame ''reindex ds1'',
                         Frame ''0'', Frame [], LockRespFrame LockOk,
                         Frame ''1'', Frame [], Frame ''c2'', Frame [], Frame ''reindex ds2'',
                         Frame ''1'', Frame [], LockRespFrame LockDenied],
          frontend_out = []\<rparr>"
  by (simp add: both_busy_events_def first_lock_events_def run_simps)

text \<open>
  C2 as stated fails. Worker 0 is granted the lock on \<open>ds1\<close> and answers its request;
  its snapshot keeps the lock while its task is null. Worker 1 is then granted the lock on
  \<open>ds1\<close> as well: two snapshots hold a dataset lock on the same id.
\<close>

theorem busy_snapshots_exclusive_counterexample:
  "\<exists>s w0 w1. exec example_ce example_dec stale_lock_events (initial 2 example_db) = Inr s
     \<and> (''0'', w0) \<in> set (wctxs s) \<and> (''1'', w1) \<in> set (wctxs s)
     \<and> task w0 = None \<and> task w1 \<noteq> None
     \<and> ''ds1'' \<in> locked_datasets (snap w0) \<and> ''ds1'' \<in> locked_datasets (snap w1)"
proof -
  from stale_lock_state obtain s where
    e: "exec example_ce example_dec stale_lock_events (initial 2 example_db) = Inr s" and
    w: "wctxs s =
            [(''0'', \<lparr>identity = ''0'',
                     snap = example_snapshot\<lparr>locked_iterators := {},
                                              locked_datasets := {[], ''ds1''}\<rparr>,
                     task = None\<rparr>),
             (''1'', \<lparr>identity = ''1'',
                     snap = example_snapshot\<lparr>locked_iterators := {},
                                              locked_datasets := {[], ''ds1''}\<rparr>,
                     task = Some (Suc (Suc 0))\<rparr>)]"
    by fastforce
  show ?thesis
    by (rule exI[of _ s], rule exI[of _ "snd (wctxs s ! 0)"], rule exI[of _ "snd (wctxs s ! 1)"])
       (simp add: e w)
qed

theorem busy_snapshots_exclusive_witness:
  "\<exists>s wa wb. exec example_ce example_dec both_busy_events (initial 2 example_db) = Inr s
     \<and> (''0'', wa) \<in> set (wctxs s) \<and> (''1'', wb) \<in> set (wctxs s)
     \<and> task wa \<noteq> None \<and> task wb \<noteq> None
     \<and> locked_datasets (snap wa) \<noteq> {}
     \<and> locked_datasets (snap wa) \<inter> locked_datasets (snap wb) = {}
     \<and> locked_iterators (snap wa) \<inter> locked_iterators (snap wb) = {}"
proof -
  let ?wa = "\<lparr>identity = ''0'',
              snap = example_snapshot\<lparr>locked_iterators := {},
                                       locked_datasets := {[], ''ds1''}\<rparr>,
              task = Some (Suc 0)\<rparr>"
  let ?wb = "\<lparr>identity = ''1'',
              snap = example_snapshot\<lparr>locked_datasets := {}, locked_iterators := {}\<rparr>,
              task = Some (Suc (Suc 0))\<rparr>"
  from both_busy_state obtain s where
    e: "exec example_ce example_dec both_busy_events (initial 2 example_db) = Inr s" and
    w: "wctxs s = [(''0'', ?wa), (''1'', ?wb)]"
    by fastforce
  have m: "(''0'', ?wa) \<in> set (wctxs s)" "(''1'', ?wb) \<in> set (wctxs s)"
    by (simp_all add: w)
  have b: "''0'' \<noteq> ''1'' \<and> task ?wa \<noteq> None \<and> task ?wb \<noteq> None" by simp
  from busy_snapshots_exclusive[OF e] m b have
    "locked_datasets (snap ?wa) \<inter> locked_datasets (snap ?wb) = {}
     \<and> locked_iterators (snap ?wa) \<inter> locked_iterators (snap ?wb) = {}"
    by fast
  moreover have "locked_datasets (snap ?wa) \<noteq> {}" by simp
  ultimately show ?thesis using e m b by blast
qed

lemma saturating_state:
  "system_exec example_ce example_enc example_dec saturating_events (system_initial 2 example_db)
     = Inr \<lparr>service =
              \<lparr>wctxs =
                 [(''0'', \<lparr>identity = ''0'',
                          snap = example_snapshot\<lparr>locked_datasets := {}, locked_iterators := {}\<rparr>,
                          task = Some (Suc 0)\<rparr>),
                  (''1'', \<lparr>identity = ''1'',
                          snap = example_snapshot\<lparr>locked_datasets := {}, locked_iterators := {}\<rparr>,
                          task = Some (Suc (Suc 0))\<rparr>)],
               worker_queue = [],
               db = \<lparr>published = example_snapshot, last_task_id = Suc (Suc 0),
                      live_tasks = [Suc 0, Suc (Suc 0)], collected = []\<rparr>,
               backend_in = [], frontend_in = [''c3'', [], ''ping''],
               backend_out =
                 [Frame ''0'', Frame [], Frame ''c1'', Frame [], Frame ''ping'',
                  Frame ''1'', Frame [], Frame ''c2'', Frame [], Frame ''ping''],
               frontend_out = []\<rparr>,
            threads =
              [(''0'', \<lparr>pc = Executing ''c1'', socket_in = []\<rparr>),
               (''1'', \<lparr>pc = Receiving,
                        socket_in = [Frame ''c2'', Frame [], Frame ''ping'']\<rparr>)]\<rparr>"
  by (simp add: saturating_events_def system_step_def system_initial_def example_enc_def
        update_thread_def run_simps)

lemma draining_state:
  "\<exists>S. system_exec example_ce example_enc example_dec draining_events
          (system_initial 2 example_db) = Inr S
     \<and> frontend_in (service S) = [] \<and> worker_queue (service S) = []
     \<and> frontend_out (service S) = [''c1'', [], ''pong'']
     \<and> live_tasks (db (service S)) = [2, 3]"
  by (simp add: draining_events_def saturating_events_def system_step_def system_initial_def
        example_enc_def update_thread_def run_simps)

theorem admission_control_witness:
  "(\<exists>S. system_exec example_ce example_enc example_dec saturating_events
           (system_initial 2 example_db) = Inr S
      \<and> length (live_tasks (db (service S))) = 2 \<and> worker_queue (service S) = []
      \<and> frontend_in (service S) = [''c3'', [], ''ping'']
      \<and> run_iteration example_ce example_dec (service S) = Inl Blocked)
   \<and> (\<exists>S. system_exec example_ce example_enc example_dec draining_events
           (system_initial 2 example_db) = Inr S
      \<and> frontend_in (service S) = [] \<and> length (live_tasks (db (service S))) = 2)"
proof -
  from saturating_state obtain S where
    e: "system_exec example_ce example_enc example_dec saturating_events
          (system_initial 2 example_db) = Inr S" and
    l: "live_tasks (db (service S)) = [Suc 0, Suc (Suc 0)]" and
    b: "backend_in (service S) = []" and
    f: "frontend_in (service S) = [''c3'', [], ''ping'']"
    by fastforce
  have l0: "live_tasks example_db = []" by (simp add: example_db_def)
  have rt: "\<forall>x. example_dec (example_enc x) = Some x"
    by (auto simp: example_dec_def example_enc_def split: NetAction.splits)
  from l have n: "length (live_tasks (db (service S))) = 2" by simp
  note a = admission_control[OF e l0 rt, where u = "service S"]
  from a n have q: "worker_queue (service S) = []" by simp
  with a b have "run_iteration example_ce example_dec (service S) = Inl Blocked" by blast
  with e n q f have first: "\<exists>S. system_exec example_ce example_enc example_dec saturating_events
           (system_initial 2 example_db) = Inr S
      \<and> length (live_tasks (db (service S))) = 2 \<and> worker_queue (service S) = []
      \<and> frontend_in (service S) = [''c3'', [], ''ping'']
      \<and> run_iteration example_ce example_dec (service S) = Inl Blocked"
    by blast
  from draining_state obtain S' where
    "system_exec example_ce example_enc example_dec draining_events
       (system_initial 2 example_db) = Inr S'"
    "frontend_in (service S') = []" "live_tasks (db (service S')) = [2, 3]"
    by blast
  then have "\<exists>S. system_exec example_ce example_enc example_dec draining_events
           (system_initial 2 example_db) = Inr S
      \<and> frontend_in (service S) = [] \<and> length (live_tasks (db (service S))) = 2"
    by (intro exI[of _ S']) simp
  with first show ?thesis by blast
qed

end
